theory Spec2Isabelle
  imports Complex_Main "HOL-Library.List_Lexorder" "HOL-Library.Sublist"
begin

section \<open>Strings\<close>

text \<open>
  A TypeScript string is a sequence of UTF-16 code units. The code units of the model
  are those of the Latin-1 block, U+0000 to U+00FF, which holds ASCII and the letters of
  German orthography; the high surrogate U+D83D and the low surrogates U+DE00 to U+DEFF,
  which in pairs encode the code points U+1F600 to U+1F6FF; and the private-use code
  units U+E000 to U+E0FF. Beyond Latin-1 these are code units that \<open>toLowerCase\<close> leaves
  as they are and that are neither white space nor digits.
\<close>

datatype codeunit = Latin1 char | HighSurrogate | LowSurrogate char | PrivateUse char

text \<open>The value of a code unit.\<close>

fun unitValue :: "codeunit \<Rightarrow> nat" where
  "unitValue (Latin1 c) = of_char c"
| "unitValue HighSurrogate = 0xD83D"
| "unitValue (LowSurrogate c) = 0xDE00 + of_char c"
| "unitValue (PrivateUse c) = 0xE000 + of_char c"

text \<open>
  The four blocks of code units in ascending order of their values, and the position of
  a code unit in its block.
\<close>

fun unitBlock :: "codeunit \<Rightarrow> nat" where
  "unitBlock (Latin1 c) = 0"
| "unitBlock HighSurrogate = 1"
| "unitBlock (LowSurrogate c) = 2"
| "unitBlock (PrivateUse c) = 3"

fun unitOffset :: "codeunit \<Rightarrow> nat" where
  "unitOffset (Latin1 c) = of_char c"
| "unitOffset HighSurrogate = 0"
| "unitOffset (LowSurrogate c) = of_char c"
| "unitOffset (PrivateUse c) = of_char c"

lemma unitOffset_less: "unitOffset u < 256"
  by (cases u) simp_all

lemma unitValue_eq:
  "unitValue u =
     (if unitBlock u = 0 then 0 else if unitBlock u = 1 then 55357
      else if unitBlock u = 2 then 56832 else 57344) + unitOffset u"
  by (cases u) simp_all

lemma unitBlock_le_3: "unitBlock u \<le> 3"
  by (cases u) simp_all

lemma unitValue_less_iff:
  "unitValue u < unitValue v \<longleftrightarrow>
     unitBlock u < unitBlock v \<or> (unitBlock u = unitBlock v \<and> unitOffset u < unitOffset v)"
proof -
  have h: "unitBlock u = 1 \<Longrightarrow> unitOffset u = 0" for u by (cases u) simp_all
  show ?thesis
    unfolding unitValue_eq [of u] unitValue_eq [of v]
    using unitOffset_less [of u] unitOffset_less [of v] unitBlock_le_3 [of u] unitBlock_le_3 [of v]
      h [of u] h [of v]
    by (auto split: if_splits)
qed

lemma unit_eqI: "unitBlock u = unitBlock v \<Longrightarrow> unitOffset u = unitOffset v \<Longrightarrow> u = v"
  by (cases u; cases v) simp_all

text \<open>
  The order of code units, by block and then by position, is the order of their values
  (\<open>codeunit_less_iff\<close> below). The orders \<open><\<close> and \<open>\<le>\<close> on strings are the lexicographic
  orders on code units, as the comparison operators of the source are.
\<close>

instantiation codeunit :: linorder
begin

definition less_codeunit :: "codeunit \<Rightarrow> codeunit \<Rightarrow> bool" where
  "less_codeunit u v \<longleftrightarrow>
     unitBlock u < unitBlock v \<or> (unitBlock u = unitBlock v \<and> unitOffset u < unitOffset v)"

definition less_eq_codeunit :: "codeunit \<Rightarrow> codeunit \<Rightarrow> bool" where
  "less_eq_codeunit u v \<longleftrightarrow> u < v \<or> u = v"

instance
proof
  fix x y z :: codeunit
  show "x < y \<longleftrightarrow> x \<le> y \<and> \<not> y \<le> x"
    unfolding less_eq_codeunit_def less_codeunit_def by auto
  show "x \<le> x" unfolding less_eq_codeunit_def by simp
  show "x \<le> y \<Longrightarrow> y \<le> z \<Longrightarrow> x \<le> z"
    unfolding less_eq_codeunit_def less_codeunit_def by auto
  show "x \<le> y \<Longrightarrow> y \<le> x \<Longrightarrow> x = y"
    unfolding less_eq_codeunit_def less_codeunit_def by auto
  show "x \<le> y \<or> y \<le> x"
    unfolding less_eq_codeunit_def less_codeunit_def using unit_eqI [of x y]
    by (metis linorder_neqE_nat)
qed

end

type_synonym jsString = "codeunit list"

text \<open>A string of Latin-1 characters as a string of code units.\<close>

definition lit :: "string \<Rightarrow> jsString" where
  "lit s = map Latin1 s"

text \<open>The surrogate code units, U+D800 to U+DBFF and U+DC00 to U+DFFF.\<close>

definition isHighSurrogate :: "codeunit \<Rightarrow> bool" where
  "isHighSurrogate u \<longleftrightarrow> 0xD800 \<le> unitValue u \<and> unitValue u \<le> 0xDBFF"

definition isLowSurrogate :: "codeunit \<Rightarrow> bool" where
  "isLowSurrogate u \<longleftrightarrow> 0xDC00 \<le> unitValue u \<and> unitValue u \<le> 0xDFFF"

definition isSurrogate :: "codeunit \<Rightarrow> bool" where
  "isSurrogate u \<longleftrightarrow> isHighSurrogate u \<or> isLowSurrogate u"

text \<open>
  The code points of a string: a high surrogate followed by a low surrogate is one code
  point, every other code unit is its own.
\<close>

fun codePoints :: "jsString \<Rightarrow> nat list" where
  "codePoints [] = []"
| "codePoints [u] = [unitValue u]"
| "codePoints (u # v # us) =
     (if isHighSurrogate u \<and> isLowSurrogate v
      then (0x10000 + (unitValue u - 0xD800) * 0x400 + (unitValue v - 0xDC00)) # codePoints us
      else unitValue u # codePoints (v # us))"

definition isWhiteSpace :: "codeunit \<Rightarrow> bool" where
  "isWhiteSpace c \<longleftrightarrow>
     c \<in> set (lit [CHR 0x09, CHR 0x0A, CHR 0x0B, CHR 0x0C, CHR 0x0D, CHR 0x20, CHR 0xA0])"

definition isDigit :: "codeunit \<Rightarrow> bool" where
  "isDigit c \<longleftrightarrow> c \<in> set (lit ''0123456789'')"

text \<open>\<open>String.prototype.trim\<close>: white space is dropped at both ends.\<close>

definition trim :: "jsString \<Rightarrow> jsString" where
  "trim s = rev (dropWhile isWhiteSpace (rev (dropWhile isWhiteSpace s)))"

text \<open>
  \<open>String.prototype.toLowerCase\<close>: of the Latin-1 characters the letters A to Z and
  U+00C0 to U+00DE (the multiplication sign U+00D7 apart) move up by 32, every other
  code unit stays.
\<close>

definition isUpperChar :: "char \<Rightarrow> bool" where
  "isUpperChar c \<longleftrightarrow>
     (let n = (of_char c :: nat) in
      (65 \<le> n \<and> n \<le> 90) \<or> (192 \<le> n \<and> n \<le> 222 \<and> n \<noteq> 215))"

definition toLowerChar :: "char \<Rightarrow> char" where
  "toLowerChar c = (if isUpperChar c then char_of ((of_char c :: nat) + 32) else c)"

fun toLowerUnit :: "codeunit \<Rightarrow> codeunit" where
  "toLowerUnit (Latin1 c) = Latin1 (toLowerChar c)"
| "toLowerUnit u = u"

definition toLowerCase :: "jsString \<Rightarrow> jsString" where
  "toLowerCase s = map toLowerUnit s"

text \<open>\<open>s.replace(/c/g, r)\<close> for a single code unit \<open>c\<close>.\<close>

definition replaceAll :: "codeunit \<Rightarrow> jsString \<Rightarrow> jsString \<Rightarrow> jsString" where
  "replaceAll c r s = concat (map (\<lambda>x. if x = c then r else [x]) s)"

text \<open>
  \<open>s.split(sep)\<close> where every code unit satisfying \<open>sep\<close> is a separator of its own;
  empty pieces are kept.
\<close>

fun splitOn :: "(codeunit \<Rightarrow> bool) \<Rightarrow> jsString \<Rightarrow> jsString list" where
  "splitOn sep [] = [[]]"
| "splitOn sep (c # cs) =
     (if sep c then [] # splitOn sep cs
      else (case splitOn sep cs of [] \<Rightarrow> [[c]] | w # ws \<Rightarrow> (c # w) # ws))"

section \<open>Preprocessing: \<open>normalizeGerman\<close> and \<open>parseDate\<close>\<close>

definition normalizeGerman :: "jsString \<Rightarrow> jsString" where
  "normalizeGerman text =
     replaceAll (Latin1 (CHR 0xDF)) (lit ''ss'')
       (replaceAll (Latin1 (CHR 0xFC)) (lit ''ue'')
         (replaceAll (Latin1 (CHR 0xF6)) (lit ''oe'')
           (replaceAll (Latin1 (CHR 0xE4)) (lit ''ae'') (toLowerCase text))))"

text \<open>A code unit that \<open>normalizeGerman\<close> leaves as it is.\<close>

definition stableChar :: "codeunit \<Rightarrow> bool" where
  "stableChar c \<longleftrightarrow>
     toLowerUnit c = c \<and> c \<notin> set (lit [CHR 0xE4, CHR 0xF6, CHR 0xFC, CHR 0xDF])"

text \<open>
  The groups of a match of \<open>^(\d{1,2})S(\d{1,2})S(\d{4})$\<close> for a separator \<open>S\<close> that
  is not a digit. A digit group holds no separator, so a match cuts the string at its
  separators into exactly three pieces: one or two digits, one or two digits, four
  digits.
\<close>

definition matchDMY :: "codeunit \<Rightarrow> jsString \<Rightarrow> (jsString \<times> jsString \<times> jsString) option" where
  "matchDMY sep s =
     (case splitOn (\<lambda>c. c = sep) s of
        [day, month, year] \<Rightarrow>
          if (length day = 1 \<or> length day = 2) \<and> list_all isDigit day \<and>
             (length month = 1 \<or> length month = 2) \<and> list_all isDigit month \<and>
             length year = 4 \<and> list_all isDigit year
          then Some (day, month, year) else None
      | _ \<Rightarrow> None)"

text \<open>
  What a match of the pattern means: the string is a day group, the separator, a month
  group, the separator and a year group, with nothing before or after.
\<close>

definition isDMY :: "codeunit \<Rightarrow> jsString \<Rightarrow> jsString \<Rightarrow> jsString \<Rightarrow> jsString \<Rightarrow> bool" where
  "isDMY sep s day month year \<longleftrightarrow>
     s = day @ [sep] @ month @ [sep] @ year \<and>
     (length day = 1 \<or> length day = 2) \<and> list_all isDigit day \<and>
     (length month = 1 \<or> length month = 2) \<and> list_all isDigit month \<and>
     length year = 4 \<and> list_all isDigit year"

fun joinWith :: "codeunit \<Rightarrow> jsString list \<Rightarrow> jsString" where
  "joinWith sep [] = []"
| "joinWith sep [w] = w"
| "joinWith sep (w # ws) = w @ sep # joinWith sep ws"

text \<open>The test \<open>^\d{4}-\d{2}-\d{2}$\<close>.\<close>

definition matchISO :: "jsString \<Rightarrow> bool" where
  "matchISO s \<longleftrightarrow>
     length s = 10 \<and> list_all isDigit (take 4 s) \<and> s ! 4 = Latin1 (CHR ''-'') \<and>
     list_all isDigit (take 2 (drop 5 s)) \<and> s ! 7 = Latin1 (CHR ''-'') \<and>
     list_all isDigit (drop 8 s)"

text \<open>\<open>s.padStart(2, '0')\<close>.\<close>

definition padStart2 :: "jsString \<Rightarrow> jsString" where
  "padStart2 s = replicate (2 - length s) (Latin1 (CHR ''0'')) @ s"

text \<open>\<open>parseDate\<close>; \<open>None\<close> is the source's \<open>null\<close>.\<close>

definition parseDate :: "jsString \<Rightarrow> jsString option" where
  "parseDate dateStr =
     (if dateStr = [] then None
      else
        (let trimmed = trim dateStr in
         case matchDMY (Latin1 (CHR ''.'')) trimmed of
           Some (day, month, year) \<Rightarrow>
             Some (year @ lit ''-'' @ padStart2 month @ lit ''-'' @ padStart2 day)
         | None \<Rightarrow>
            (case matchDMY (Latin1 (CHR ''/'')) trimmed of
               Some (day, month, year) \<Rightarrow>
                 Some (year @ lit ''-'' @ padStart2 month @ lit ''-'' @ padStart2 day)
             | None \<Rightarrow> if matchISO trimmed then Some trimmed else None)))"

section \<open>Stopwords\<close>

definition MINIMAL_STOPWORDS :: "jsString list" where
  "MINIMAL_STOPWORDS = map lit
    [''der'', ''die'', ''das'', ''den'', ''dem'', ''des'',
     ''ein'', ''eine'', ''einer'', ''einem'', ''einen'', ''eines'',
     ''in'', ''im'', ''an'', ''am'', ''auf'', ''aus'', ''bei'', ''mit'', ''nach'', ''von'',
     ''vor'', ''zu'', ''zum'', ''zur'',
     ''durch'', ''fuer'', ''gegen'', ''ohne'', ''um'', ''unter'', ''ueber'',
     ''und'', ''oder'', ''aber'', ''denn'', ''weil'', ''wenn'', ''als'', ''ob'', ''dass'',
     ''ich'', ''du'', ''er'', ''sie'', ''es'', ''wir'', ''ihr'',
     ''mein'', ''dein'', ''sein'', ''ihr'', ''unser'', ''euer'',
     ''dieser'', ''diese'', ''dieses'', ''jener'', ''jene'', ''jenes'',
     ''welcher'', ''welche'', ''welches'',
     ''ist'', ''sind'', ''war'', ''waren'', ''wird'', ''werden'', ''hat'', ''haben'',
     ''hatte'', ''hatten'',
     ''kann'', ''koennen'', ''muss'', ''muessen'', ''soll'', ''sollen'', ''will'', ''wollen'',
     ''nicht'', ''auch'', ''nur'', ''noch'', ''schon'', ''sehr'', ''so'', ''wie'', ''was'',
     ''wer'',
     ''hier'', ''dort'', ''dann'', ''daher'', ''dabei'', ''dazu'',
     ''imago'']"

text \<open>The stopword set: the minimal list together with its umlaut-folded copies.\<close>

definition GERMAN_STOPWORDS :: "jsString set" where
  "GERMAN_STOPWORDS =
     set (MINIMAL_STOPWORDS @
          map (\<lambda>w. replaceAll (Latin1 (CHR 0xDF)) (lit ''ss'')
                     (replaceAll (Latin1 (CHR 0xFC)) (lit ''ue'')
                       (replaceAll (Latin1 (CHR 0xF6)) (lit ''oe'')
                         (replaceAll (Latin1 (CHR 0xE4)) (lit ''ae'') w)))) MINIMAL_STOPWORDS)"

section \<open>Tokenizer\<close>

text \<open>
  The separator class of the splitting expression: white space and the punctuation
  \<open>, . ; : ! ? " ' ( ) [ ] { }\<close>. The source splits on runs of separators and drops the
  empty pieces; splitting at every separator and dropping the empty pieces gives the
  same words.
\<close>

definition isSeparator :: "codeunit \<Rightarrow> bool" where
  "isSeparator c \<longleftrightarrow>
     isWhiteSpace c \<or>
     c \<in> set (lit [CHR '','', CHR ''.'', CHR '';'', CHR '':'', CHR ''!'', CHR ''?'', CHR 0x22,
                   CHR 0x27, CHR ''('', CHR '')'', CHR ''['', CHR '']'', CHR ''{'', CHR ''}''])"

text \<open>The tokens one word of the loop body pushes.\<close>

definition wordTokens :: "jsString \<Rightarrow> jsString list" where
  "wordTokens word =
     (if Latin1 (CHR ''-'') \<in> set word then
        (let parts = filter (\<lambda>p. length p \<ge> 2) (splitOn (\<lambda>c. c = Latin1 (CHR ''-'')) word) in
         if length parts \<ge> 2 then
           (if length word \<ge> 2 then [word] else []) @ parts
         else
           (if length word \<ge> 2 then [filter (\<lambda>c. c \<noteq> Latin1 (CHR ''-'')) word] else []))
      else (if length word \<ge> 2 then [word] else []))"

definition tokenize :: "jsString \<Rightarrow> jsString list" where
  "tokenize text =
     (if text = [] then []
      else
        (let normalized = normalizeGerman text;
             words = filter (\<lambda>w. w \<noteq> []) (splitOn isSeparator normalized);
             tokens = concat (map wordTokens words)
         in filter (\<lambda>token. token \<notin> GERMAN_STOPWORDS) tokens))"

section \<open>Media items\<close>

record RawMediaItem =
  bildnummer :: jsString
  suchtext :: jsString
  fotografen :: jsString
  datum :: jsString
  hoehe :: int
  breite :: int

record ProcessedMediaItem = RawMediaItem +
  dateISO :: jsString
  searchableText :: jsString
  restrictions :: "jsString list"
  photographerNormalized :: jsString

text \<open>A media item with the given identifier, text, credit, date and markers.\<close>

definition mkItem ::
  "jsString \<Rightarrow> jsString \<Rightarrow> jsString \<Rightarrow> jsString \<Rightarrow> jsString list \<Rightarrow> ProcessedMediaItem" where
  "mkItem ident txt credit date markers =
     \<lparr>bildnummer = ident, suchtext = txt, fotografen = credit, datum = date,
      hoehe = 800, breite = 1200,
      dateISO = date, searchableText = normalizeGerman txt, restrictions = markers,
      photographerNormalized = normalizeGerman credit\<rparr>"

section \<open>Containers\<close>

text \<open>
  A \<open>Map\<close> is the list of its entries in insertion order; \<open>set\<close> on a present key
  replaces the value where the entry stands, on a new key it appends the entry.
\<close>

definition map_get :: "('k \<times> 'v) list \<Rightarrow> 'k \<Rightarrow> 'v option" where
  "map_get m k = map_of m k"

fun map_set :: "('k \<times> 'v) list \<Rightarrow> 'k \<Rightarrow> 'v \<Rightarrow> ('k \<times> 'v) list" where
  "map_set [] k v = [(k, v)]"
| "map_set ((k', v') # m) k v =
     (if k' = k then (k, v) # m else (k', v') # map_set m k v)"

definition map_keys :: "('k \<times> 'v) list \<Rightarrow> 'k list" where
  "map_keys m = map fst m"

text \<open>A \<open>Set\<close> is the list of its elements in insertion order.\<close>

definition set_add :: "'a list \<Rightarrow> 'a \<Rightarrow> 'a list" where
  "set_add xs x = (if x \<in> set xs then xs else xs @ [x])"

text \<open>
  An array may have holes: a slot is \<open>None\<close> where nothing was stored. The assignment
  \<open>xs[i] = v\<close> beyond the end extends the array, leaving holes in between.
\<close>

definition array_set :: "'a option list \<Rightarrow> nat \<Rightarrow> 'a \<Rightarrow> 'a option list" where
  "array_set xs i v =
     (if i < length xs then xs[i := Some v]
      else xs @ replicate (i - length xs) None @ [Some v])"

text \<open>The elements a callback of \<open>filter\<close> sees: holes are skipped.\<close>

definition present :: "'a option list \<Rightarrow> 'a list" where
  "present xs = concat (map (\<lambda>x. case x of None \<Rightarrow> [] | Some v \<Rightarrow> [v]) xs)"

text \<open>
  \<open>Array.prototype.sort\<close> with a comparison function: a stable sort, an element
  staying before another unless the function is positive on the two.
\<close>

fun insertBy :: "('a \<Rightarrow> 'a \<Rightarrow> real) \<Rightarrow> 'a \<Rightarrow> 'a list \<Rightarrow> 'a list" where
  "insertBy cmp x [] = [x]"
| "insertBy cmp x (y # ys) = (if cmp x y \<le> 0 then x # y # ys else y # insertBy cmp x ys)"

definition sortBy :: "('a \<Rightarrow> 'a \<Rightarrow> real) \<Rightarrow> 'a list \<Rightarrow> 'a list" where
  "sortBy cmp xs = foldr (insertBy cmp) xs []"

section \<open>BM25 scorer\<close>

text \<open>
  The module \<open>bm25\<close>, from which the search module imports \<open>computeIDF\<close> and
  \<open>computeTermScore\<close>. Document counts, frequencies and lengths are natural numbers;
  the other numbers are real numbers.
\<close>

record BM25Config =
  k1 :: real
  b :: real

definition DEFAULT_BM25_CONFIG :: BM25Config where
  "DEFAULT_BM25_CONFIG = \<lparr>k1 = 12 / 10, b = 75 / 100\<rparr>"

definition computeIDF :: "nat \<Rightarrow> nat \<Rightarrow> real" where
  "computeIDF docFreq totalDocs =
     (if totalDocs = 0 \<or> docFreq = 0 then 0
      else ln (1 + (real totalDocs - real docFreq + 5 / 10) / (real docFreq + 5 / 10)))"

definition computeTermScore :: "nat \<Rightarrow> nat \<Rightarrow> real \<Rightarrow> real \<Rightarrow> BM25Config \<Rightarrow> real" where
  "computeTermScore tf docLength avgDocLength idf config =
     (if avgDocLength = 0 \<or> tf = 0 then 0
      else
        (let lengthNorm = 1 - b config + b config * (real docLength / avgDocLength);
             tfSaturated = (real tf * (k1 config + 1)) / (real tf + k1 config * lengthNorm)
         in idf * tfSaturated))"

section \<open>Search types\<close>

record Posting =
  docId :: nat
  termFrequency :: nat

record FieldIndex =
  termPostings :: "(jsString \<times> Posting list) list"
  docLengths :: "(nat \<times> nat) list"
  totalDocs :: nat
  avgDocLength :: real

text \<open>The three searchable fields, \<open>'suchtext' | 'fotografen' | 'bildnummer'\<close>.\<close>

datatype Field = Suchtext | Fotografen | Bildnummer

text \<open>
  An entry of the lists the search route filters and sorts, and a search result, which
  has the document id as well.
\<close>

record ScoredItem =
  item :: ProcessedMediaItem
  score :: real
  matchedTerms :: "jsString list"

record SearchResult = ScoredItem +
  docId :: nat

record SearchConfig =
  k1 :: real
  b :: real
  suchtextWeight :: real
  fotografenWeight :: real
  bildnummerWeight :: real
  minPrefixLength :: nat
  maxPrefixExpansion :: nat
  prefixPenalty :: real

definition DEFAULT_SEARCH_CONFIG :: SearchConfig where
  "DEFAULT_SEARCH_CONFIG =
     \<lparr>k1 = 12 / 10, b = 75 / 100, suchtextWeight = 3, fotografenWeight = 15 / 10,
      bildnummerWeight = 1, minPrefixLength = 3, maxPrefixExpansion = 50,
      prefixPenalty = 8 / 10\<rparr>"

text \<open>A \<open>Partial<SearchConfig>\<close>: every key may be absent.\<close>

record PartialSearchConfig =
  k1_opt :: "real option"
  b_opt :: "real option"
  suchtextWeight_opt :: "real option"
  fotografenWeight_opt :: "real option"
  bildnummerWeight_opt :: "real option"
  minPrefixLength_opt :: "nat option"
  maxPrefixExpansion_opt :: "nat option"
  prefixPenalty_opt :: "real option"

definition noOverrides :: PartialSearchConfig where
  "noOverrides =
     \<lparr>k1_opt = None, b_opt = None, suchtextWeight_opt = None, fotografenWeight_opt = None,
      bildnummerWeight_opt = None, minPrefixLength_opt = None, maxPrefixExpansion_opt = None,
      prefixPenalty_opt = None\<rparr>"

text \<open>The spread \<open>{ ...DEFAULT_SEARCH_CONFIG, ...config }\<close>.\<close>

definition mergeConfig :: "PartialSearchConfig \<Rightarrow> SearchConfig" where
  "mergeConfig config =
     \<lparr>k1 = (case k1_opt config of Some v \<Rightarrow> v | None \<Rightarrow> k1 DEFAULT_SEARCH_CONFIG),
      b = (case b_opt config of Some v \<Rightarrow> v | None \<Rightarrow> b DEFAULT_SEARCH_CONFIG),
      suchtextWeight = (case suchtextWeight_opt config of Some v \<Rightarrow> v
                        | None \<Rightarrow> suchtextWeight DEFAULT_SEARCH_CONFIG),
      fotografenWeight = (case fotografenWeight_opt config of Some v \<Rightarrow> v
                          | None \<Rightarrow> fotografenWeight DEFAULT_SEARCH_CONFIG),
      bildnummerWeight = (case bildnummerWeight_opt config of Some v \<Rightarrow> v
                          | None \<Rightarrow> bildnummerWeight DEFAULT_SEARCH_CONFIG),
      minPrefixLength = (case minPrefixLength_opt config of Some v \<Rightarrow> v
                         | None \<Rightarrow> minPrefixLength DEFAULT_SEARCH_CONFIG),
      maxPrefixExpansion = (case maxPrefixExpansion_opt config of Some v \<Rightarrow> v
                            | None \<Rightarrow> maxPrefixExpansion DEFAULT_SEARCH_CONFIG),
      prefixPenalty = (case prefixPenalty_opt config of Some v \<Rightarrow> v
                       | None \<Rightarrow> prefixPenalty DEFAULT_SEARCH_CONFIG)\<rparr>"

section \<open>Inverted index\<close>

record InvertedIndex =
  suchtextIndex :: FieldIndex
  fotografenIndex :: FieldIndex
  bildnummerIndex :: FieldIndex
  documents :: "ProcessedMediaItem option list"
  photographers :: "jsString list"
  restrictions :: "jsString list"
  suchtextTermsSorted :: "jsString list"
  fotografenTermsSorted :: "jsString list"
  bildnummerTermsSorted :: "jsString list"

definition createEmptyFieldIndex :: FieldIndex where
  "createEmptyFieldIndex = \<lparr>termPostings = [], docLengths = [], totalDocs = 0, avgDocLength = 0\<rparr>"

text \<open>The index the constructor returns.\<close>

definition newInvertedIndex :: InvertedIndex where
  "newInvertedIndex =
     \<lparr>suchtextIndex = createEmptyFieldIndex, fotografenIndex = createEmptyFieldIndex,
      bildnummerIndex = createEmptyFieldIndex, documents = [], photographers = [],
      restrictions = [], suchtextTermsSorted = [], fotografenTermsSorted = [],
      bildnummerTermsSorted = []\<rparr>"

text \<open>
  The restriction pattern \<open>[A-Z]+(?:x[A-Z]+)+\<close>. A match starts at a capital letter, runs
  over the capitals that follow and then over groups of an \<open>x\<close> and capitals, as many as
  there are; it needs one group at least. \<open>afterGroups\<close> drops the groups from the
  front of a string.
\<close>

definition isUpperAZ :: "codeunit \<Rightarrow> bool" where
  "isUpperAZ c \<longleftrightarrow> c \<in> set (lit ''ABCDEFGHIJKLMNOPQRSTUVWXYZ'')"

function (sequential) afterGroups :: "jsString \<Rightarrow> jsString" where
  "afterGroups (x # d # r) =
     (if x = Latin1 (CHR ''x'') \<and> isUpperAZ d then afterGroups (dropWhile isUpperAZ r)
      else x # d # r)"
| "afterGroups s = s"
  by pat_completeness auto
termination
  by (relation "measure length") (auto simp: length_dropWhile_le less_Suc_eq_le le_SucI)

lemma length_afterGroups: "length (afterGroups s) \<le> length s"
proof (induction s rule: afterGroups.induct)
  case (1 x d r)
  show ?case
  proof (cases "x = Latin1 (CHR ''x'') \<and> isUpperAZ d")
    case True
    have "length (afterGroups (dropWhile isUpperAZ r)) \<le> length (dropWhile isUpperAZ r)"
      using "1.IH" [OF True] .
    also have "\<dots> \<le> length r" by (rule length_dropWhile_le)
    finally show ?thesis using True by simp
  next
    case False
    then show ?thesis by auto
  qed
qed simp_all

text \<open>\<open>s.replace(/[A-Z]+(?:x[A-Z]+)+/g, ' ')\<close>: every match becomes one blank.\<close>

function replaceMarkers :: "jsString \<Rightarrow> jsString" where
  "replaceMarkers [] = []"
| "replaceMarkers (c # cs) =
     (if isUpperAZ c then
        (case dropWhile isUpperAZ cs of
           x # d # r \<Rightarrow>
             if x = Latin1 (CHR ''x'') \<and> isUpperAZ d
             then Latin1 (CHR '' '') # replaceMarkers (afterGroups (dropWhile isUpperAZ cs))
             else c # replaceMarkers cs
         | _ \<Rightarrow> c # replaceMarkers cs)
      else c # replaceMarkers cs)"
  by pat_completeness auto
termination
proof (relation "measure length")
  show "wf (measure length)" by simp
next
  fix c :: codeunit and cs :: jsString
  have "length (afterGroups (dropWhile isUpperAZ cs)) \<le> length cs"
    using length_afterGroups [of "dropWhile isUpperAZ cs"] length_dropWhile_le [of isUpperAZ cs]
    by linarith
  then show "(afterGroups (dropWhile isUpperAZ cs), c # cs) \<in> measure length" by simp
qed auto

text \<open>\<open>s.replace(/\s+/g, ' ')\<close>: every run of white space becomes one blank.\<close>

fun collapseWhiteSpace :: "jsString \<Rightarrow> jsString" where
  "collapseWhiteSpace [] = []"
| "collapseWhiteSpace [c] = [if isWhiteSpace c then Latin1 (CHR '' '') else c]"
| "collapseWhiteSpace (c # d # cs) =
     (if isWhiteSpace c \<and> isWhiteSpace d then collapseWhiteSpace (d # cs)
      else (if isWhiteSpace c then Latin1 (CHR '' '') else c) # collapseWhiteSpace (d # cs))"

definition extractCleanSuchtext :: "jsString \<Rightarrow> jsString" where
  "extractCleanSuchtext s =
     (if s = [] then [] else trim (collapseWhiteSpace (replaceMarkers s)))"

text \<open>The term frequencies the first loop of \<open>indexTokens\<close> counts.\<close>

definition countTerms :: "jsString list \<Rightarrow> (jsString \<times> nat) list" where
  "countTerms tokens =
     foldl (\<lambda>termFreqs token.
              map_set termFreqs token
                ((case map_get termFreqs token of None \<Rightarrow> 0 | Some n \<Rightarrow> n) + 1))
       [] tokens"

definition addPosting ::
  "nat \<Rightarrow> (jsString \<times> Posting list) list \<Rightarrow> jsString \<times> nat \<Rightarrow> (jsString \<times> Posting list) list" where
  "addPosting d tp tf =
     (let posting = \<lparr>Posting.docId = d, termFrequency = snd tf\<rparr> in
      case map_get tp (fst tf) of
        Some existingPostings \<Rightarrow> map_set tp (fst tf) (existingPostings @ [posting])
      | None \<Rightarrow> map_set tp (fst tf) [posting])"

definition indexTokens :: "FieldIndex \<Rightarrow> nat \<Rightarrow> jsString list \<Rightarrow> FieldIndex" where
  "indexTokens index d tokens =
     (let termFreqs = countTerms tokens in
      index\<lparr>termPostings := foldl (addPosting d) (termPostings index) termFreqs,
            docLengths := map_set (docLengths index) d (length tokens),
            totalDocs := totalDocs index + 1\<rparr>)"

definition addDocument :: "nat \<Rightarrow> ProcessedMediaItem \<Rightarrow> InvertedIndex \<Rightarrow> InvertedIndex" where
  "addDocument d it idx =
     (let cleanSuchtext = extractCleanSuchtext (suchtext it);
          suchtextTokens = tokenize cleanSuchtext;
          fotografenTokens = tokenize (fotografen it);
          bildnummerTokens = tokenize (bildnummer it)
      in idx\<lparr>documents := array_set (documents idx) d it,
             suchtextIndex := indexTokens (suchtextIndex idx) d suchtextTokens,
             fotografenIndex := indexTokens (fotografenIndex idx) d fotografenTokens,
             bildnummerIndex := indexTokens (bildnummerIndex idx) d bildnummerTokens,
             photographers := set_add (photographers idx) (fotografen it),
             restrictions :=
               foldl set_add (restrictions idx) (ProcessedMediaItem.restrictions it)\<rparr>)"

definition calculateAvgDocLength :: "FieldIndex \<Rightarrow> real" where
  "calculateAvgDocLength index =
     (if totalDocs index = 0 then 0
      else real (foldl (\<lambda>totalLength len. totalLength + len) 0 (map snd (docLengths index)))
           / real (totalDocs index))"

text \<open>
  \<open>finalizeIndex\<close>. \<open>Array.prototype.sort\<close> with no comparison function orders strings by
  their UTF-16 code units, which is the order \<open>\<le>\<close> of strings here.
\<close>

definition finalizeIndex :: "InvertedIndex \<Rightarrow> InvertedIndex" where
  "finalizeIndex idx =
     idx\<lparr>suchtextIndex :=
           (suchtextIndex idx)\<lparr>avgDocLength := calculateAvgDocLength (suchtextIndex idx)\<rparr>,
         fotografenIndex :=
           (fotografenIndex idx)\<lparr>avgDocLength := calculateAvgDocLength (fotografenIndex idx)\<rparr>,
         bildnummerIndex :=
           (bildnummerIndex idx)\<lparr>avgDocLength := calculateAvgDocLength (bildnummerIndex idx)\<rparr>,
         suchtextTermsSorted := sort (map_keys (termPostings (suchtextIndex idx))),
         fotografenTermsSorted := sort (map_keys (termPostings (fotografenIndex idx))),
         bildnummerTermsSorted := sort (map_keys (termPostings (bildnummerIndex idx)))\<rparr>"

definition getFieldIndex :: "InvertedIndex \<Rightarrow> Field \<Rightarrow> FieldIndex" where
  "getFieldIndex idx field =
     (case field of
        Suchtext \<Rightarrow> suchtextIndex idx
      | Fotografen \<Rightarrow> fotografenIndex idx
      | Bildnummer \<Rightarrow> bildnummerIndex idx)"

definition getDocument :: "InvertedIndex \<Rightarrow> nat \<Rightarrow> ProcessedMediaItem option" where
  "getDocument idx d = (if d < length (documents idx) then documents idx ! d else None)"

definition getAllDocuments :: "InvertedIndex \<Rightarrow> ProcessedMediaItem option list" where
  "getAllDocuments idx = documents idx"

text \<open>
  The binary search of \<open>getPrefixTerms\<close>. The unsigned shift \<open>(lo + hi) >>> 1\<close> halves the
  sum, which stays below \<open>2^32\<close> for every array an engine holds.
\<close>

function lowerBound :: "jsString list \<Rightarrow> jsString \<Rightarrow> nat \<Rightarrow> nat \<Rightarrow> nat" where
  "lowerBound terms pfx lo hi =
     (if lo < hi then
        (let mid = (lo + hi) div 2 in
         if terms ! mid < pfx then lowerBound terms pfx (mid + 1) hi
         else lowerBound terms pfx lo mid)
      else lo)"
  by pat_completeness auto
termination
  by (relation "measure (\<lambda>(terms, pfx, lo, hi). hi - lo)") auto

declare lowerBound.simps [simp del]

text \<open>The collecting loop of \<open>getPrefixTerms\<close>, over the terms from index \<open>lo\<close> on.\<close>

fun collectMatches :: "jsString \<Rightarrow> nat \<Rightarrow> jsString list \<Rightarrow> jsString list \<Rightarrow> jsString list" where
  "collectMatches pfx limit [] matches = matches"
| "collectMatches pfx limit (t # ts) matches =
     (if length matches < limit then
        (if prefix pfx t then collectMatches pfx limit ts (matches @ [t]) else matches)
      else matches)"

definition getPrefixTerms :: "InvertedIndex \<Rightarrow> jsString \<Rightarrow> Field \<Rightarrow> nat \<Rightarrow> jsString list" where
  "getPrefixTerms idx pfx field limit =
     (let terms = (case field of
                     Suchtext \<Rightarrow> suchtextTermsSorted idx
                   | Fotografen \<Rightarrow> fotografenTermsSorted idx
                   | Bildnummer \<Rightarrow> bildnummerTermsSorted idx)
      in
      if length terms = 0 \<or> pfx = [] then []
      else
        (let lo = lowerBound terms pfx 0 (length terms)
         in collectMatches pfx limit (drop lo terms) []))"

text \<open>
  The index a sequence of \<open>addDocument\<close> calls and then \<open>finalizeIndex\<close> leave behind,
  starting from a new index.
\<close>

definition buildIndex :: "(nat \<times> ProcessedMediaItem) list \<Rightarrow> InvertedIndex" where
  "buildIndex calls =
     finalizeIndex (foldl (\<lambda>idx (i, it). addDocument i it idx) newInvertedIndex calls)"

text \<open>
  The index of the search module: every item of the data file is added under its
  position, then the index is finalized.
\<close>

definition searchIndex :: "ProcessedMediaItem list \<Rightarrow> InvertedIndex" where
  "searchIndex mediaItems = buildIndex (enumerate 0 mediaItems)"

text \<open>The distinct-keys property of the three term maps of an index.\<close>

definition keysDistinct :: "InvertedIndex \<Rightarrow> bool" where
  "keysDistinct idx \<longleftrightarrow>
     distinct (map_keys (termPostings (suchtextIndex idx))) \<and>
     distinct (map_keys (termPostings (fotografenIndex idx))) \<and>
     distinct (map_keys (termPostings (bildnummerIndex idx)))"

section \<open>Search\<close>

text \<open>
  The IDF cache is a variable of the search module: a map from field to a map from term
  to number. Every function that reads or writes it takes the cache and returns it.
\<close>

type_synonym IdfCache = "(Field \<times> (jsString \<times> real) list) list"

definition getIDF :: "jsString \<Rightarrow> Field \<Rightarrow> FieldIndex \<Rightarrow> IdfCache \<Rightarrow> real \<times> IdfCache" where
  "getIDF term field fieldIndex idfCache =
     (let idfCache1 = (case map_get idfCache field of
                         Some fc \<Rightarrow> idfCache
                       | None \<Rightarrow> map_set idfCache field []);
          fieldCache = (case map_get idfCache field of Some fc \<Rightarrow> fc | None \<Rightarrow> [])
      in case map_get fieldCache term of
           Some cached \<Rightarrow> (cached, idfCache1)
         | None \<Rightarrow>
            (let postings = map_get (termPostings fieldIndex) term;
                 docFreq = (case postings of Some ps \<Rightarrow> length ps | None \<Rightarrow> 0);
                 idf = computeIDF docFreq (totalDocs fieldIndex)
             in (idf, map_set idfCache1 field (map_set fieldCache term idf))))"

text \<open>
  A \<open>DocScoreEntry\<close> is a score and the set of matched terms; \<open>docScores\<close> maps document
  ids to entries.
\<close>

type_synonym DocScoreEntry = "real \<times> jsString list"

type_synonym DocScores = "(nat \<times> DocScoreEntry) list"

text \<open>The body of the loop over the postings in \<open>scoreTermInField\<close>.\<close>

definition scorePosting ::
  "jsString \<Rightarrow> FieldIndex \<Rightarrow> real \<Rightarrow> real \<Rightarrow> real \<Rightarrow> BM25Config \<Rightarrow> DocScores \<Rightarrow> Posting \<Rightarrow>
   DocScores" where
  "scorePosting term fieldIndex idf fieldWeight prefixMultiplier bm25Config docScores posting =
     (let d = Posting.docId posting;
          docLength = (case map_get (docLengths fieldIndex) d of Some n \<Rightarrow> n | None \<Rightarrow> 0);
          rawScore = computeTermScore (termFrequency posting) docLength
                       (avgDocLength fieldIndex) idf bm25Config;
          finalScore = rawScore * fieldWeight * prefixMultiplier
      in case map_get docScores d of
           Some existing \<Rightarrow>
             map_set docScores d (fst existing + finalScore, set_add (snd existing) term)
         | None \<Rightarrow> map_set docScores d (finalScore, [term]))"

definition scoreTermInField ::
  "jsString \<Rightarrow> Field \<Rightarrow> InvertedIndex \<Rightarrow> SearchConfig \<Rightarrow> bool \<Rightarrow> DocScores \<times> IdfCache \<Rightarrow>
   DocScores \<times> IdfCache" where
  "scoreTermInField term field index config isPrefix st =
     (let fieldIndex = getFieldIndex index field in
      case map_get (termPostings fieldIndex) term of
        None \<Rightarrow> st
      | Some postings \<Rightarrow>
          if length postings = 0 then st
          else
            (let (idf, idfCache) = getIDF term field fieldIndex (snd st);
                 fieldWeight = (case field of
                                  Suchtext \<Rightarrow> suchtextWeight config
                                | Fotografen \<Rightarrow> fotografenWeight config
                                | Bildnummer \<Rightarrow> bildnummerWeight config);
                 prefixMultiplier = (if isPrefix then prefixPenalty config else 1);
                 bm25Config = \<lparr>BM25Config.k1 = k1 config, BM25Config.b = b config\<rparr>
             in (foldl (scorePosting term fieldIndex idf fieldWeight prefixMultiplier bm25Config)
                   (fst st) postings,
                 idfCache)))"

text \<open>One of the three loops over the prefix-expanded terms of a field.\<close>

definition scorePrefixTerms ::
  "jsString \<Rightarrow> Field \<Rightarrow> InvertedIndex \<Rightarrow> SearchConfig \<Rightarrow> jsString list \<Rightarrow>
   DocScores \<times> IdfCache \<Rightarrow> DocScores \<times> IdfCache" where
  "scorePrefixTerms term field index config prefixTerms st =
     foldl (\<lambda>st prefixTerm.
              if prefixTerm = term then st
              else scoreTermInField prefixTerm field index config True st)
       st prefixTerms"

text \<open>The body of the loop over the query terms.\<close>

definition scoreQueryTerm ::
  "InvertedIndex \<Rightarrow> SearchConfig \<Rightarrow> DocScores \<times> IdfCache \<Rightarrow> jsString \<Rightarrow> DocScores \<times> IdfCache" where
  "scoreQueryTerm index cfg st term =
     (let st1 = scoreTermInField term Suchtext index cfg False st;
          st2 = scoreTermInField term Fotografen index cfg False st1;
          st3 = scoreTermInField term Bildnummer index cfg False st2
      in if length term \<ge> minPrefixLength cfg then
           (let suchtextPrefixTerms = getPrefixTerms index term Suchtext (maxPrefixExpansion cfg);
                fotografenPrefixTerms =
                  getPrefixTerms index term Fotografen (maxPrefixExpansion cfg);
                bildnummerPrefixTerms =
                  getPrefixTerms index term Bildnummer (maxPrefixExpansion cfg);
                st4 = scorePrefixTerms term Suchtext index cfg suchtextPrefixTerms st3;
                st5 = scorePrefixTerms term Fotografen index cfg fotografenPrefixTerms st4
            in scorePrefixTerms term Bildnummer index cfg bildnummerPrefixTerms st5)
         else st3)"

text \<open>
  The comparison function of the final sort. \<open>localeCompare\<close> is the platform's
  collation; it is the parameter \<open>lc\<close>.
\<close>

definition compareResults ::
  "(jsString \<Rightarrow> jsString \<Rightarrow> int) \<Rightarrow> SearchResult \<Rightarrow> SearchResult \<Rightarrow> real" where
  "compareResults lc x y =
     (if score y \<noteq> score x then score y - score x
      else real_of_int (lc (dateISO (item y)) (dateISO (item x))))"

text \<open>The results the loop over \<open>docScores\<close> pushes.\<close>

definition toResults :: "InvertedIndex \<Rightarrow> DocScores \<Rightarrow> SearchResult list" where
  "toResults index docScores =
     concat (map (\<lambda>(d, entry).
                    case getDocument index d of
                      Some it \<Rightarrow>
                        [\<lparr>item = it, score = fst entry, matchedTerms = snd entry, docId = d\<rparr>]
                    | None \<Rightarrow> [])
               docScores)"

text \<open>
  \<open>search\<close>. The result is an array; in browse mode it has a hole where the document
  array has one.
\<close>

definition search ::
  "(jsString \<Rightarrow> jsString \<Rightarrow> int) \<Rightarrow> jsString \<Rightarrow> InvertedIndex \<Rightarrow> PartialSearchConfig \<Rightarrow> IdfCache \<Rightarrow>
   SearchResult option list \<times> IdfCache" where
  "search lc query index config idfCache =
     (let cfg = mergeConfig config;
          queryTerms = tokenize query
      in if length queryTerms = 0 then
           (map (\<lambda>(d, slot).
                   map_option (\<lambda>it. \<lparr>item = it, score = 0, matchedTerms = [], docId = d\<rparr>) slot)
              (enumerate 0 (getAllDocuments index)),
            idfCache)
         else
           (let st = foldl (scoreQueryTerm index cfg) ([], idfCache) queryTerms;
                results = toResults index (fst st)
            in (map Some (sortBy (compareResults lc) results), snd st)))"

text \<open>
  A history of earlier calls of \<open>search\<close>, each with its query, the index it was given and
  its configuration, and the cache the history leaves behind: the cache belongs to the
  module, so every call reads and writes the same one, whatever index it is given.
\<close>

definition runQueries ::
  "(jsString \<Rightarrow> jsString \<Rightarrow> int) \<Rightarrow> (jsString \<times> InvertedIndex \<times> PartialSearchConfig) list \<Rightarrow>
   IdfCache \<Rightarrow> IdfCache" where
  "runQueries lc history idfCache =
     foldl (\<lambda>c (query, index, config). snd (search lc query index config c)) idfCache history"

text \<open>A history of calls that were all given the same index.\<close>

definition onIndex ::
  "InvertedIndex \<Rightarrow> (jsString \<times> PartialSearchConfig) list \<Rightarrow>
   (jsString \<times> InvertedIndex \<times> PartialSearchConfig) list" where
  "onIndex index history = map (\<lambda>(query, config). (query, index, config)) history"

section \<open>Notions for the properties of search\<close>

text \<open>The IDF of a term in a field, as \<open>getIDF\<close> computes it on a cache miss.\<close>

definition idfOf :: "InvertedIndex \<Rightarrow> Field \<Rightarrow> jsString \<Rightarrow> real" where
  "idfOf index field term =
     computeIDF
       (case map_get (termPostings (getFieldIndex index field)) term of
          Some ps \<Rightarrow> length ps
        | None \<Rightarrow> 0)
       (totalDocs (getFieldIndex index field))"

text \<open>A cache is consistent with an index when every value it holds is that IDF.\<close>

definition cacheConsistent :: "InvertedIndex \<Rightarrow> IdfCache \<Rightarrow> bool" where
  "cacheConsistent index idfCache \<longleftrightarrow>
     (\<forall>field fieldCache term v.
        map_get idfCache field = Some fieldCache \<and> map_get fieldCache term = Some v \<longrightarrow>
        v = idfOf index field term)"

text \<open>Two states of the scoring loop with the same scores and consistent caches.\<close>

definition sameScores ::
  "InvertedIndex \<Rightarrow> DocScores \<times> IdfCache \<Rightarrow> DocScores \<times> IdfCache \<Rightarrow> bool" where
  "sameScores index st st' \<longleftrightarrow>
     fst st = fst st' \<and> cacheConsistent index (snd st) \<and> cacheConsistent index (snd st')"

text \<open>The documents that have a posting for a term in a field.\<close>

definition postingDocs :: "InvertedIndex \<Rightarrow> Field \<Rightarrow> jsString \<Rightarrow> nat set" where
  "postingDocs index field term =
     (case map_get (termPostings (getFieldIndex index field)) term of
        None \<Rightarrow> {}
      | Some ps \<Rightarrow> Posting.docId ` set ps)"

text \<open>
  The pairs of a term and a field on which the loop body of \<open>search\<close> calls
  \<open>scoreTermInField\<close> for one query term, and for a list of query terms: the term itself
  in every field and, when the term is long enough, the terms of its prefix expansion in
  a field, the term itself apart, in that field.
\<close>

definition termPairs :: "InvertedIndex \<Rightarrow> SearchConfig \<Rightarrow> jsString \<Rightarrow> (jsString \<times> Field) set" where
  "termPairs index cfg term =
     {(t, f). t = term} \<union>
     {(t, f). minPrefixLength cfg \<le> length term \<and>
              t \<in> set (getPrefixTerms index term f (maxPrefixExpansion cfg)) \<and> t \<noteq> term}"

definition scoredPairs ::
  "InvertedIndex \<Rightarrow> SearchConfig \<Rightarrow> jsString list \<Rightarrow> (jsString \<times> Field) set" where
  "scoredPairs index cfg queryTerms = (\<Union>term \<in> set queryTerms. termPairs index cfg term)"

text \<open>The matched terms \<open>docScores\<close> holds for a document.\<close>

definition termsOf :: "DocScores \<Rightarrow> nat \<Rightarrow> jsString set" where
  "termsOf docScores d =
     (case map_get docScores d of None \<Rightarrow> {} | Some entry \<Rightarrow> set (snd entry))"

text \<open>
  \<open>docScores\<close> records a set of scored pairs: its keys are the documents with a posting
  for one of the pairs, no key twice, and the terms of a document are the terms of the
  pairs it has a posting for.
\<close>

definition records :: "InvertedIndex \<Rightarrow> DocScores \<Rightarrow> (jsString \<times> Field) set \<Rightarrow> bool" where
  "records index docScores pairs \<longleftrightarrow>
     distinct (map_keys docScores) \<and>
     set (map_keys docScores) = {d. \<exists>t f. (t, f) \<in> pairs \<and> d \<in> postingDocs index f t} \<and>
     (\<forall>d. termsOf docScores d = {t. \<exists>f. (t, f) \<in> pairs \<and> d \<in> postingDocs index f t}) \<and>
     (\<forall>d entry. map_get docScores d = Some entry \<longrightarrow> distinct (snd entry))"

section \<open>The filter and sort layer of the search route\<close>

text \<open>
  The callback of \<open>applyFilters\<close>. A query parameter is a \<open>string | null\<close>; the tests
  \<open>credit && \<dots>\<close>, \<open>dateFrom && \<dots>\<close> and \<open>item.dateISO && \<dots>\<close> are false on \<open>null\<close>
  and on the empty string.
\<close>

definition passesFilters ::
  "jsString option \<Rightarrow> jsString option \<Rightarrow> jsString option \<Rightarrow> jsString list \<Rightarrow>
   ProcessedMediaItem \<Rightarrow> bool" where
  "passesFilters credit dateFrom dateTo selected it =
     (if (case credit of None \<Rightarrow> False | Some c \<Rightarrow> c \<noteq> [] \<and> fotografen it \<noteq> c)
      then False
      else if (case dateFrom of
                 None \<Rightarrow> False
               | Some d \<Rightarrow> d \<noteq> [] \<and> dateISO it \<noteq> [] \<and> dateISO it < d)
      then False
      else if (case dateTo of
                 None \<Rightarrow> False
               | Some d \<Rightarrow> d \<noteq> [] \<and> dateISO it \<noteq> [] \<and> dateISO it > d)
      then False
      else if length selected > 0 then
        (let hasNone = (lit ''none'' \<in> set selected);
             otherRestrictions = filter (\<lambda>r. r \<noteq> lit ''none'') selected;
             matchesNone = (hasNone \<and> length (ProcessedMediaItem.restrictions it) = 0);
             matchesOther =
               list_ex (\<lambda>r. r \<in> set (ProcessedMediaItem.restrictions it)) otherRestrictions
         in if \<not> matchesNone \<and> \<not> matchesOther then False else True)
      else True)"

definition applyFilters ::
  "ScoredItem option list \<Rightarrow> jsString option \<Rightarrow> jsString option \<Rightarrow> jsString option \<Rightarrow>
   jsString list \<Rightarrow> ScoredItem list" where
  "applyFilters items credit dateFrom dateTo selected =
     filter (\<lambda>x. passesFilters credit dateFrom dateTo selected (item x)) (present items)"

datatype SortOrder = Asc | Desc

definition parseSort :: "jsString option \<Rightarrow> SortOrder option" where
  "parseSort v =
     (if v = Some (lit ''asc'') then Some Asc else if v = Some (lit ''desc'') then Some Desc else None)"

text \<open>\<open>sortByDate\<close>: a sort of a copy of the list; \<open>lc\<close> stands for \<open>localeCompare\<close>.\<close>

definition sortByDate ::
  "(jsString \<Rightarrow> jsString \<Rightarrow> int) \<Rightarrow> ScoredItem list \<Rightarrow> SortOrder \<Rightarrow> ScoredItem list" where
  "sortByDate lc items order =
     sortBy (\<lambda>x y.
               (let dateA = dateISO (item x);
                    dateB = dateISO (item y);
                    comparison = lc dateA dateB
                in real_of_int (if order = Asc then comparison else - comparison)))
       items"

text \<open>The list the route builds in browse mode: every document with score \<open>0\<close>.\<close>

definition browseItems :: "InvertedIndex \<Rightarrow> ScoredItem option list" where
  "browseItems index =
     map (map_option (\<lambda>it. \<lparr>item = it, score = 0, matchedTerms = []\<rparr>))
       (getAllDocuments index)"

text \<open>
  The route handler up to the pagination: the list \<open>results\<close> after searching, filtering
  and sorting, and the cache. The arguments are the query parameters \<open>q\<close>, \<open>credit\<close>,
  \<open>dateFrom\<close>, \<open>dateTo\<close>, \<open>restriction\<close> and \<open>sort\<close> as the request has them, \<open>None\<close> for
  a parameter that is absent. The search runs on the index of the search module with
  the default configuration.
\<close>

definition GET_results ::
  "(jsString \<Rightarrow> jsString \<Rightarrow> int) \<Rightarrow> InvertedIndex \<Rightarrow> jsString option \<Rightarrow> jsString option \<Rightarrow>
   jsString option \<Rightarrow> jsString option \<Rightarrow> jsString list \<Rightarrow> jsString option \<Rightarrow> IdfCache \<Rightarrow>
   ScoredItem list \<times> IdfCache" where
  "GET_results lc index qParam credit dateFrom dateTo selected sortParam idfCache =
     (let qv = (case qParam of Some s \<Rightarrow> s | None \<Rightarrow> []);
          sortv = parseSort sortParam;
          found =
            (if trim qv \<noteq> [] then
               (let sr = search lc qv index noOverrides idfCache
                in (map (map_option (\<lambda>r. \<lparr>item = item r, score = score r,
                                            matchedTerms = matchedTerms r\<rparr>)) (fst sr),
                    snd sr))
             else
               (browseItems index, idfCache));
          filtered = applyFilters (fst found) credit dateFrom dateTo selected;
          sorted = (case sortv of
                      Some order \<Rightarrow> sortByDate lc filtered order
                    | None \<Rightarrow> if trim qv = [] then sortByDate lc filtered Desc else filtered)
      in (sorted, snd found))"

text \<open>
  A collation that orders strings by their code units, as \<open>localeCompare\<close> orders ISO
  dates: strings of digits and hyphens.
\<close>

definition codeUnitCompare :: "jsString \<Rightarrow> jsString \<Rightarrow> int" where
  "codeUnitCompare x y = (if x < y then - 1 else if x = y then 0 else 1)"

section \<open>Code units and strings\<close>

lemma codeunit_less_iff: "u < v \<longleftrightarrow> unitValue u < unitValue (v :: codeunit)"
  unfolding less_codeunit_def unitValue_less_iff ..

lemma codeunit_less_simps [simp]:
  "Latin1 c < Latin1 d \<longleftrightarrow> (of_char c :: nat) < of_char d"
  "Latin1 c < HighSurrogate"
  "Latin1 c < LowSurrogate d"
  "Latin1 c < PrivateUse d"
  "\<not> HighSurrogate < Latin1 d"
  "\<not> HighSurrogate < HighSurrogate"
  "HighSurrogate < LowSurrogate d"
  "HighSurrogate < PrivateUse d"
  "\<not> LowSurrogate c < Latin1 d"
  "\<not> LowSurrogate c < HighSurrogate"
  "LowSurrogate c < LowSurrogate d \<longleftrightarrow> (of_char c :: nat) < of_char d"
  "LowSurrogate c < PrivateUse d"
  "\<not> PrivateUse c < Latin1 d"
  "\<not> PrivateUse c < HighSurrogate"
  "\<not> PrivateUse c < LowSurrogate d"
  "PrivateUse c < PrivateUse d \<longleftrightarrow> (of_char c :: nat) < of_char d"
  unfolding less_codeunit_def by simp_all

lemma lit_simps [simp]: "lit [] = []" "lit (c # cs) = Latin1 c # lit cs"
  unfolding lit_def by simp_all

section \<open>Containers\<close>

lemma present_simps [simp]:
  "present [] = []"
  "present (Some x # xs) = x # present xs"
  "present (None # xs) = present xs"
  unfolding present_def by simp_all

lemma present_map_Some [simp]: "present (map Some xs) = xs"
  by (induction xs) simp_all

lemma present_append [simp]: "present (xs @ ys) = present xs @ present ys"
  unfolding present_def by simp

lemma map_get_Nil [simp]: "map_get [] k = None"
  unfolding map_get_def by simp

lemma map_get_Cons: "map_get ((k, v) # m) k' = (if k = k' then Some v else map_get m k')"
  unfolding map_get_def by simp

lemma map_get_map_set: "map_get (map_set m k v) k' = (if k' = k then Some v else map_get m k')"
  unfolding map_get_def by (induction m) auto

lemma map_keys_map_set:
  "map_keys (map_set m k v) = (if k \<in> set (map_keys m) then map_keys m else map_keys m @ [k])"
  unfolding map_keys_def by (induction m) force+

lemma distinct_map_set: "distinct (map_keys m) \<Longrightarrow> distinct (map_keys (map_set m k v))"
  by (simp add: map_keys_map_set)

lemma map_get_Some_iff:
  "distinct (map_keys m) \<Longrightarrow> map_get m k = Some v \<longleftrightarrow> (k, v) \<in> set m"
  unfolding map_get_def map_keys_def by simp

lemma map_get_None_iff: "map_get m k = None \<longleftrightarrow> k \<notin> set (map_keys m)"
  unfolding map_get_def map_keys_def by (simp add: map_of_eq_None_iff)

lemma set_set_add [simp]: "set (set_add xs x) = insert x (set xs)"
  unfolding set_add_def by auto

lemma set_insertBy [simp]: "set (insertBy cmp x ys) = insert x (set ys)"
  by (induction ys) auto

lemma set_sortBy [simp]: "set (sortBy cmp xs) = set xs"
  unfolding sortBy_def by (induction xs) auto

lemma length_insertBy [simp]: "length (insertBy cmp x ys) = Suc (length ys)"
  by (induction ys) auto

lemma length_sortBy [simp]: "length (sortBy cmp xs) = length xs"
  unfolding sortBy_def by (induction xs) auto


section \<open>Normalization and tokenization\<close>

lemma toLowerChar_not_upper: "\<not> isUpperChar (toLowerChar c)"
proof (cases "isUpperChar c")
  case True
  then have r: "(65 \<le> (of_char c :: nat) \<and> (of_char c :: nat) \<le> 90) \<or>
     (192 \<le> (of_char c :: nat) \<and> (of_char c :: nat) \<le> 222 \<and> (of_char c :: nat) \<noteq> 215)"
    unfolding isUpperChar_def Let_def .
  then have "((of_char c :: nat) + 32) mod 256 = of_char c + 32"
    by (intro mod_less) linarith
  then have "(of_char (char_of ((of_char c :: nat) + 32)) :: nat) = of_char c + 32"
    by (simp only: of_char_of)
  moreover have "toLowerChar c = char_of ((of_char c :: nat) + 32)"
    using True unfolding toLowerChar_def by simp
  ultimately have "(of_char (toLowerChar c) :: nat) = of_char c + 32" by simp
  with r show ?thesis unfolding isUpperChar_def Let_def by linarith
next
  case False
  then show ?thesis unfolding toLowerChar_def by simp
qed

lemma toLowerChar_idem: "toLowerChar (toLowerChar c) = toLowerChar c"
  using toLowerChar_not_upper [of c] by (simp add: toLowerChar_def [of "toLowerChar c"])

lemma toLowerUnit_idem: "toLowerUnit (toLowerUnit u) = toLowerUnit u"
  by (cases u) (simp_all add: toLowerChar_idem)

lemma stable_letters:
  "stableChar (Latin1 (CHR ''a''))" "stableChar (Latin1 (CHR ''e''))" "stableChar (Latin1 (CHR ''o''))"
  "stableChar (Latin1 (CHR ''u''))" "stableChar (Latin1 (CHR ''s''))"
  by (simp_all add: stableChar_def toLowerChar_def isUpperChar_def)


lemma replaceAll_absent: "c \<notin> set s \<Longrightarrow> replaceAll c r s = s"
  unfolding replaceAll_def by (induction s) auto

lemma set_replaceAll: "set (replaceAll c r s) \<subseteq> (set s - {c}) \<union> set r"
  unfolding replaceAll_def by (induction s) auto

lemma replaceAll_Nil_iff: "r \<noteq> [] \<Longrightarrow> replaceAll c r s = [] \<longleftrightarrow> s = []"
  unfolding replaceAll_def by (cases s) auto

lemma normalizeGerman_Nil_iff: "normalizeGerman s = [] \<longleftrightarrow> s = []"
  unfolding normalizeGerman_def by (simp add: replaceAll_Nil_iff toLowerCase_def)

lemma normalizeGerman_stable:
  assumes "\<forall>c \<in> set s. stableChar c"
  shows "normalizeGerman s = s"
proof -
  have "toLowerCase s = s"
    using assms unfolding toLowerCase_def stableChar_def by (simp add: map_idI)
  moreover have "(Latin1 (CHR 0xE4)) \<notin> set s" "(Latin1 (CHR 0xF6)) \<notin> set s" "(Latin1 (CHR 0xFC)) \<notin> set s" "(Latin1 (CHR 0xDF)) \<notin> set s"
    using assms unfolding stableChar_def lit_def by auto
  ultimately show ?thesis
    unfolding normalizeGerman_def by (simp add: replaceAll_absent)
qed

lemma normalizeGerman_chars: "\<forall>c \<in> set (normalizeGerman s). stableChar c"
proof
  fix c assume c: "c \<in> set (normalizeGerman s)"
  define s0 where "s0 = toLowerCase s"
  define s1 where "s1 = replaceAll (Latin1 (CHR 0xE4)) (lit ''ae'') s0"
  define s2 where "s2 = replaceAll (Latin1 (CHR 0xF6)) (lit ''oe'') s1"
  define s3 where "s3 = replaceAll (Latin1 (CHR 0xFC)) (lit ''ue'') s2"
  define s4 where "s4 = replaceAll (Latin1 (CHR 0xDF)) (lit ''ss'') s3"
  have c4: "c \<in> set s4"
    using c unfolding normalizeGerman_def s4_def s3_def s2_def s1_def s0_def .
  have l0: "\<forall>x \<in> set s0. toLowerUnit x = x"
    unfolding s0_def toLowerCase_def by (auto simp: toLowerUnit_idem)
  have i1: "set s1 \<subseteq> (set s0 - {(Latin1 (CHR 0xE4))}) \<union> set (lit ''ae'')"
    unfolding s1_def by (rule set_replaceAll)
  have i2: "set s2 \<subseteq> (set s1 - {(Latin1 (CHR 0xF6))}) \<union> set (lit ''oe'')"
    unfolding s2_def by (rule set_replaceAll)
  have i3: "set s3 \<subseteq> (set s2 - {(Latin1 (CHR 0xFC))}) \<union> set (lit ''ue'')"
    unfolding s3_def by (rule set_replaceAll)
  have i4: "set s4 \<subseteq> (set s3 - {(Latin1 (CHR 0xDF))}) \<union> set (lit ''ss'')"
    unfolding s4_def by (rule set_replaceAll)
  define A where "A = set (lit ''aeous'')"
  have a: "set (lit ''ae'') \<subseteq> A" "set (lit ''oe'') \<subseteq> A" "set (lit ''ue'') \<subseteq> A" "set (lit ''ss'') \<subseteq> A"
    unfolding A_def lit_def by simp_all
  from c4 i4 i3 i2 i1 a have
    "c \<in> A \<or> (c \<in> set s0 \<and> c \<noteq> Latin1 (CHR 0xE4) \<and> c \<noteq> Latin1 (CHR 0xF6) \<and> c \<noteq> Latin1 (CHR 0xFC) \<and> c \<noteq> Latin1 (CHR 0xDF))"
    by blast
  then show "stableChar c"
  proof
    assume "c \<in> A"
    then have "c = Latin1 (CHR ''a'') \<or> c = Latin1 (CHR ''e'') \<or> c = Latin1 (CHR ''o'') \<or> c = Latin1 (CHR ''u'') \<or> c = Latin1 (CHR ''s'')"
      unfolding A_def lit_def by simp
    then show ?thesis using stable_letters by blast
  next
    assume h: "c \<in> set s0 \<and> c \<noteq> Latin1 (CHR 0xE4) \<and> c \<noteq> Latin1 (CHR 0xF6) \<and> c \<noteq> Latin1 (CHR 0xFC) \<and> c \<noteq> Latin1 (CHR 0xDF)"
    then have "toLowerUnit c = c" using l0 by blast
    with h show ?thesis unfolding stableChar_def lit_def by simp
  qed
qed

lemma normalizeGerman_idem: "normalizeGerman (normalizeGerman s) = normalizeGerman s"
  by (rule normalizeGerman_stable) (rule normalizeGerman_chars)

text \<open>
  C7: for every string \<open>x\<close>, tokenizing the normalized string gives the same token list as
  tokenizing \<open>x\<close> itself.
\<close>

theorem tokenize_normalizeGerman: "tokenize (normalizeGerman x) = tokenize x"
  unfolding tokenize_def by (simp add: normalizeGerman_Nil_iff normalizeGerman_idem)

section \<open>Date parsing\<close>

lemma splitOn_not_Nil: "splitOn P s \<noteq> []"
  by (induction s) (auto split: list.splits)

lemma joinWith_Cons: "ws \<noteq> [] \<Longrightarrow> joinWith sep (w # ws) = w @ sep # joinWith sep ws"
  by (cases ws) auto

lemma joinWith_splitOn: "joinWith sep (splitOn (\<lambda>c. c = sep) s) = s"
proof (induction s)
  case Nil
  show ?case by simp
next
  case (Cons c cs)
  obtain w ws where sp: "splitOn (\<lambda>c. c = sep) cs = w # ws"
    using splitOn_not_Nil [of "\<lambda>c. c = sep" cs] by (cases "splitOn (\<lambda>c. c = sep) cs") auto
  show ?case
  proof (cases "c = sep")
    case True
    then show ?thesis using Cons sp by (simp add: joinWith_Cons)
  next
    case False
    then show ?thesis using Cons sp by (cases ws) auto
  qed
qed

lemma splitOn_free: "\<forall>c \<in> set d. \<not> P c \<Longrightarrow> splitOn P d = [d]"
  by (induction d) auto

lemma splitOn_append: "\<forall>c \<in> set d. \<not> P c \<Longrightarrow> P x \<Longrightarrow> splitOn P (d @ x # r) = d # splitOn P r"
  by (induction d) auto

lemma digits_no_sep: "\<not> isDigit sep \<Longrightarrow> list_all isDigit d \<Longrightarrow> \<forall>c \<in> set d. \<not> c = sep"
  by (auto simp: list_all_iff)

lemma matchDMY_iff:
  assumes "\<not> isDigit sep"
  shows "matchDMY sep s = Some (d, m, y) \<longleftrightarrow> isDMY sep s d m y"
proof
  assume h: "matchDMY sep s = Some (d, m, y)"
  then have sp: "splitOn (\<lambda>c. c = sep) s = [d, m, y]"
    unfolding matchDMY_def by (auto split: list.splits if_splits)
  have "joinWith sep [d, m, y] = s"
    using joinWith_splitOn [of sep s] sp by simp
  then have "s = d @ [sep] @ m @ [sep] @ y" by simp
  then show "isDMY sep s d m y"
    using h sp unfolding matchDMY_def isDMY_def by (simp split: if_splits)
next
  assume h: "isDMY sep s d m y"
  then have s: "s = d @ sep # m @ sep # y" unfolding isDMY_def by simp
  have nd: "\<forall>c \<in> set d. \<not> c = sep" and nm: "\<forall>c \<in> set m. \<not> c = sep" and ny: "\<forall>c \<in> set y. \<not> c = sep"
    using h assms digits_no_sep unfolding isDMY_def by blast+
  have "splitOn (\<lambda>c. c = sep) s = [d, m, y]"
    unfolding s using nd nm ny by (simp add: splitOn_append splitOn_free)
  then show "matchDMY sep s = Some (d, m, y)"
    using h unfolding matchDMY_def isDMY_def by simp
qed

lemma matchDMY_None_iff:
  assumes "\<not> isDigit sep"
  shows "matchDMY sep s = None \<longleftrightarrow> (\<forall>d m y. \<not> isDMY sep s d m y)"
proof -
  have "matchDMY sep s = None \<longleftrightarrow> (\<forall>d m y. matchDMY sep s \<noteq> Some (d, m, y))"
    by (cases "matchDMY sep s") auto
  then show ?thesis using matchDMY_iff [OF assms] by simp
qed

lemma sep_not_digit: "\<not> isDigit (Latin1 (CHR ''.''))" "\<not> isDigit (Latin1 (CHR ''/''))"
  unfolding isDigit_def lit_def by simp_all

lemma digit_not_space: "isDigit c \<Longrightarrow> \<not> isWhiteSpace c"
  unfolding isDigit_def isWhiteSpace_def lit_def by auto

lemma trim_id: "s \<noteq> [] \<Longrightarrow> \<not> isWhiteSpace (hd s) \<Longrightarrow> \<not> isWhiteSpace (last s) \<Longrightarrow> trim s = s"
proof -
  assume a: "s \<noteq> []" "\<not> isWhiteSpace (hd s)" "\<not> isWhiteSpace (last s)"
  then have "dropWhile isWhiteSpace s = s" by (cases s) auto
  moreover have "dropWhile isWhiteSpace (rev s) = rev s"
    using a by (cases "rev s") (auto simp: last_rev [symmetric] simp del: last_rev)
  ultimately show ?thesis unfolding trim_def by simp
qed

lemma isDMY_D:
  assumes "isDMY sep s d m y"
  shows "s = d @ sep # m @ sep # y" "d \<noteq> []" "y \<noteq> []" "list_all isDigit d" "list_all isDigit m" "list_all isDigit y"
    "length d = 1 \<or> length d = 2" "length m = 1 \<or> length m = 2"
proof -
  from assms show "s = d @ sep # m @ sep # y" unfolding isDMY_def by simp
  from assms show ld: "length d = 1 \<or> length d = 2" unfolding isDMY_def by blast
  from assms show "length m = 1 \<or> length m = 2" unfolding isDMY_def by blast
  from assms have ly: "length y = 4" unfolding isDMY_def by blast
  from ld show "d \<noteq> []" by fastforce
  from ly show "y \<noteq> []" by fastforce
  from assms show "list_all isDigit d" unfolding isDMY_def by blast
  from assms show "list_all isDigit m" unfolding isDMY_def by blast
  from assms show "list_all isDigit y" unfolding isDMY_def by blast
qed

lemma isDMY_trim:
  assumes "isDMY sep s d m y"
  shows "trim s = s"
proof -
  note D = isDMY_D [OF assms]
  have ne: "s \<noteq> []" using D(1) by simp
  have "hd s = hd d" using D(1) D(2) by simp
  moreover have "hd d \<in> set d" using D(2) by simp
  ultimately have "isDigit (hd s)" using D(4) by (simp add: list_all_iff)
  then have h: "\<not> isWhiteSpace (hd s)" by (rule digit_not_space)
  have "last s = last y" using D(1) D(3) by simp
  moreover have "last y \<in> set y" using D(3) by simp
  ultimately have "isDigit (last s)" using D(6) by (simp add: list_all_iff)
  then have l: "\<not> isWhiteSpace (last s)" by (rule digit_not_space)
  show ?thesis using ne h l by (rule trim_id)
qed


lemma matchISO_D:
  assumes "matchISO s"
  shows "length s = 10" "list_all isDigit (take 4 s)" "list_all isDigit (drop 8 s)" "s ! 4 = Latin1 (CHR ''-'')"
  using assms unfolding matchISO_def by blast+

lemma matchISO_trim:
  assumes "matchISO s"
  shows "trim s = s"
proof -
  note D = matchISO_D [OF assms]
  from D(1) have ne: "s \<noteq> []" by fastforce
  have "take 4 s \<noteq> []" using D(1) ne by simp
  then have "hd (take 4 s) \<in> set (take 4 s)" by (rule hd_in_set)
  moreover have "hd (take 4 s) = hd s" by simp
  ultimately have "isDigit (hd s)" using D(2) by (simp add: list_all_iff)
  then have h: "\<not> isWhiteSpace (hd s)" by (rule digit_not_space)
  have dn: "drop 8 s \<noteq> []" using D(1) by simp
  then have "last (drop 8 s) \<in> set (drop 8 s)" by (rule last_in_set)
  moreover have "last (drop 8 s) = last s" using D(1) by simp
  ultimately have "isDigit (last s)" using D(3) by (simp add: list_all_iff)
  then have l: "\<not> isWhiteSpace (last s)" by (rule digit_not_space)
  show ?thesis using ne h l by (rule trim_id)
qed

lemma length_padStart2: "length s = 1 \<or> length s = 2 \<Longrightarrow> length (padStart2 s) = 2"
  unfolding padStart2_def by fastforce

lemma isDMY_chars:
  assumes "isDMY sep s d m y"
  shows "\<forall>c \<in> set s. isDigit c \<or> c = sep" "sep \<in> set s"
proof -
  note D = isDMY_D [OF assms]
  show "sep \<in> set s" unfolding D(1) by simp
  show "\<forall>c \<in> set s. isDigit c \<or> c = sep"
    unfolding D(1) using D(4) D(5) D(6) by (auto simp: list_all_iff)
qed

lemma isDMY_sep_excl:
  assumes "isDMY sep s d m y" and "isDMY sep' s d' m' y'" and "\<not> isDigit sep'"
  shows "sep' = sep"
  using isDMY_chars [OF assms(1)] isDMY_chars [OF assms(2)] assms(3) by blast

lemma matchISO_not_DMY:
  assumes "matchISO s" and "sep \<noteq> Latin1 (CHR ''-'')" 
  shows "\<not> isDMY sep s d m y"
proof
  assume a: "isDMY sep s d m y"
  note D = matchISO_D [OF assms(1)]
  have "s ! 4 \<in> set s" using D(1) by (intro nth_mem) simp
  then have "(Latin1 (CHR ''-'')) \<in> set s" using D(4) by simp
  then have "isDigit (Latin1 (CHR ''-'')) \<or> (Latin1 (CHR ''-'')) = sep" using isDMY_chars(1) [OF a] by blast
  moreover have "\<not> isDigit (Latin1 (CHR ''-''))" unfolding isDigit_def lit_def by simp
  ultimately show False using assms(2) by simp
qed


lemma trim_Nil: "trim [] = []"
  unfolding trim_def by simp

lemma parseDate_dmy:
  assumes "isDMY sep (trim s) d m y" and "sep = Latin1 (CHR ''.'') \<or> sep = Latin1 (CHR ''/'')"
  shows "parseDate s = Some (y @ lit ''-'' @ padStart2 m @ lit ''-'' @ padStart2 d)"
proof -
  have ne: "s \<noteq> []" using isDMY_D(1) [OF assms(1)] trim_Nil by fastforce
  from assms(2) show ?thesis
  proof
    assume sep: "sep = Latin1 (CHR ''.'')"
    then have "matchDMY (Latin1 (CHR ''.'')) (trim s) = Some (d, m, y)"
      using assms(1) matchDMY_iff [OF sep_not_digit(1)] by simp
    then show ?thesis using ne unfolding parseDate_def by simp
  next
    assume sep: "sep = Latin1 (CHR ''/'')"
    then have 1: "matchDMY (Latin1 (CHR ''/'')) (trim s) = Some (d, m, y)"
      using assms(1) matchDMY_iff [OF sep_not_digit(2)] by simp
    have "\<forall>d' m' y'. \<not> isDMY (Latin1 (CHR ''.'')) (trim s) d' m' y'"
    proof (intro allI notI)
      fix d' m' y' assume "isDMY (Latin1 (CHR ''.'')) (trim s) d' m' y'"
      then have "(Latin1 (CHR ''.'')) = sep" using isDMY_sep_excl [OF assms(1) _ sep_not_digit(1)] by blast
      then show False using sep by simp
    qed
    then have 2: "matchDMY (Latin1 (CHR ''.'')) (trim s) = None"
      using matchDMY_None_iff [OF sep_not_digit(1)] by simp
    show ?thesis using ne 1 2 unfolding parseDate_def by simp
  qed
qed

lemma parseDate_iso:
  assumes "matchISO (trim s)"
  shows "parseDate s = Some (trim s)"
proof -
  have "length (trim s) = 10" using matchISO_D(1) [OF assms] .
  then have ne: "s \<noteq> []" using trim_Nil by fastforce
  have 1: "matchDMY (Latin1 (CHR ''.'')) (trim s) = None"
    using matchDMY_None_iff [OF sep_not_digit(1)] matchISO_not_DMY [OF assms, of "(Latin1 (CHR ''.''))"] by simp
  have 2: "matchDMY (Latin1 (CHR ''/'')) (trim s) = None"
    using matchDMY_None_iff [OF sep_not_digit(2)] matchISO_not_DMY [OF assms, of "(Latin1 (CHR ''/''))"] by simp
  show ?thesis using ne 1 2 assms unfolding parseDate_def by simp
qed

lemma parseDate_other:
  assumes "\<forall>d m y. \<not> isDMY (Latin1 (CHR ''.'')) (trim s) d m y \<and> \<not> isDMY (Latin1 (CHR ''/'')) (trim s) d m y"
    and "\<not> matchISO (trim s)"
  shows "parseDate s = None"
proof -
  have "matchDMY (Latin1 (CHR ''.'')) (trim s) = None" "matchDMY (Latin1 (CHR ''/'')) (trim s) = None"
    using assms(1) matchDMY_None_iff [OF sep_not_digit(1)] matchDMY_None_iff [OF sep_not_digit(2)]
    by simp_all
  then show ?thesis using assms(2) unfolding parseDate_def by simp
qed

text \<open>
  C4, as amended: \<open>parseDate\<close> trims white space from both ends of its argument first.
  With \<open>t\<close> the trimmed string, the result is year, month and day joined by hyphens, month
  and day padded to two digits, when \<open>t\<close> matches the dotted or the slashed pattern (no
  calendar check); \<open>t\<close> when \<open>t\<close> matches the ISO pattern; and \<open>null\<close> otherwise. A
  string that matches one of the three patterns itself is its own trimmed string.
\<close>

theorem parseDate_trimmed:
  "(isDMY (Latin1 (CHR ''.'')) (trim s) d m y \<or> isDMY (Latin1 (CHR ''/'')) (trim s) d m y \<longrightarrow>
      parseDate s = Some (y @ lit ''-'' @ padStart2 m @ lit ''-'' @ padStart2 d) \<and>
      length (padStart2 m) = 2 \<and> length (padStart2 d) = 2) \<and>
   (matchISO (trim s) \<longrightarrow> parseDate s = Some (trim s)) \<and>
   ((\<forall>d' m' y'. \<not> isDMY (Latin1 (CHR ''.'')) (trim s) d' m' y' \<and> \<not> isDMY (Latin1 (CHR ''/'')) (trim s) d' m' y') \<and>
    \<not> matchISO (trim s) \<longrightarrow> parseDate s = None) \<and>
   (isDMY (Latin1 (CHR ''.'')) s d m y \<or> isDMY (Latin1 (CHR ''/'')) s d m y \<or> matchISO s \<longrightarrow> trim s = s)"
proof (intro conjI impI)
  assume h: "isDMY (Latin1 (CHR ''.'')) (trim s) d m y \<or> isDMY (Latin1 (CHR ''/'')) (trim s) d m y"
  then show "parseDate s = Some (y @ lit ''-'' @ padStart2 m @ lit ''-'' @ padStart2 d)"
    using parseDate_dmy by blast
  from h show "length (padStart2 m) = 2" using isDMY_D(8) length_padStart2 by blast
  from h show "length (padStart2 d) = 2" using isDMY_D(7) length_padStart2 by blast
next
  assume "matchISO (trim s)"
  then show "parseDate s = Some (trim s)" by (rule parseDate_iso)
next
  assume "(\<forall>d' m' y'. \<not> isDMY (Latin1 (CHR ''.'')) (trim s) d' m' y' \<and> \<not> isDMY (Latin1 (CHR ''/'')) (trim s) d' m' y') \<and> \<not> matchISO (trim s)"
  then show "parseDate s = None" using parseDate_other by blast
next
  assume "isDMY (Latin1 (CHR ''.'')) s d m y \<or> isDMY (Latin1 (CHR ''/'')) s d m y \<or> matchISO s"
  then show "trim s = s" using isDMY_trim matchISO_trim by blast
qed

theorem parseDate_trimmed_witness:
  "parseDate (lit ''31.02.2024'') = Some (lit ''2024-02-31'') \<and>
   parseDate (lit ''2024-03-14 '') = Some (lit ''2024-03-14'') \<and>
   parseDate (lit ''14-03-2024'') = None \<and>
   trim (lit ''1/2/2024'') = lit ''1/2/2024''"
proof -
  have t1: "trim (lit ''31.02.2024'') = lit ''31.02.2024''" by code_simp
  have "isDMY (Latin1 (CHR ''.'')) (lit ''31.02.2024'') (lit ''31'') (lit ''02'') (lit ''2024'')"
    unfolding isDMY_def isDigit_def by simp
  then have h1: "isDMY (Latin1 (CHR ''.'')) (trim (lit ''31.02.2024'')) (lit ''31'') (lit ''02'') (lit ''2024'')"
    unfolding t1 .
  have p: "padStart2 (lit ''02'') = lit ''02''" "padStart2 (lit ''31'') = lit ''31''"
    unfolding padStart2_def by simp_all
  have c1: "parseDate (lit ''31.02.2024'') = Some (lit ''2024-02-31'')"
    using parseDate_trimmed [of "lit ''31.02.2024''" "lit ''31''" "lit ''02''" "lit ''2024''"] h1 p by simp
  have t2: "trim (lit ''2024-03-14 '') = lit ''2024-03-14''" by code_simp
  have "matchISO (lit ''2024-03-14'')" by code_simp
  then have h2: "matchISO (trim (lit ''2024-03-14 ''))" unfolding t2 .
  have c2: "parseDate (lit ''2024-03-14 '') = Some (lit ''2024-03-14'')"
    using parseDate_trimmed [of "lit ''2024-03-14 ''"] h2 t2 by simp
  have "matchDMY (Latin1 (CHR ''.'')) (trim (lit ''14-03-2024'')) = None" by code_simp
  then have n1: "\<forall>d m y. \<not> isDMY (Latin1 (CHR ''.'')) (trim (lit ''14-03-2024'')) d m y"
    using matchDMY_None_iff [OF sep_not_digit(1)] by simp
  have "matchDMY (Latin1 (CHR ''/'')) (trim (lit ''14-03-2024'')) = None" by code_simp
  then have n2: "\<forall>d m y. \<not> isDMY (Latin1 (CHR ''/'')) (trim (lit ''14-03-2024'')) d m y"
    using matchDMY_None_iff [OF sep_not_digit(2)] by simp
  have n3: "\<not> matchISO (trim (lit ''14-03-2024''))" by code_simp
  have c3: "parseDate (lit ''14-03-2024'') = None"
    using parseDate_trimmed [of "lit ''14-03-2024''"] n1 n2 n3 by blast
  have "isDMY (Latin1 (CHR ''/'')) (lit ''1/2/2024'') (lit ''1'') (lit ''2'') (lit ''2024'')"
    unfolding isDMY_def isDigit_def by simp
  then have c4: "trim (lit ''1/2/2024'') = lit ''1/2/2024''"
    using parseDate_trimmed [of "lit ''1/2/2024''" "lit ''1''" "lit ''2''" "lit ''2024''"] by blast
  show ?thesis using c1 c2 c3 c4 by blast
qed

text \<open>
  C4 as stated fails: a date with a leading blank matches none of the three anchored
  patterns, and \<open>parseDate\<close> still returns a date for it.
\<close>

theorem parseDate_counterexample:
  "matchDMY (Latin1 (CHR ''.'')) (lit '' 14.03.2024'') = None \<and> matchDMY (Latin1 (CHR ''/'')) (lit '' 14.03.2024'') = None \<and>
   \<not> matchISO (lit '' 14.03.2024'') \<and> parseDate (lit '' 14.03.2024'') = Some (lit ''2024-03-14'')"
  by code_simp

section \<open>Filters\<close>

lemma passesFilters_dateFrom:
  "passesFilters credit (Some d1) dateTo selected it \<longleftrightarrow>
     (d1 = [] \<or> dateISO it = [] \<or> d1 \<le> dateISO it) \<and>
     passesFilters credit None dateTo selected it"
  unfolding passesFilters_def by (auto simp: not_less split: option.splits)

lemma passesFilters_dateTo:
  "passesFilters credit dateFrom (Some d2) selected it \<longleftrightarrow>
     (d2 = [] \<or> dateISO it = [] \<or> dateISO it \<le> d2) \<and>
     passesFilters credit dateFrom None selected it"
  unfolding passesFilters_def by (auto simp: not_less split: option.splits)

lemma passesFilters_selected:
  "passesFilters credit dateFrom dateTo selected it \<longleftrightarrow>
     passesFilters credit dateFrom dateTo [] it \<and>
     (selected = [] \<or> (lit ''none'' \<in> set selected \<and> ProcessedMediaItem.restrictions it = []) \<or>
      set (ProcessedMediaItem.restrictions it) \<inter> (set selected - {lit ''none''}) \<noteq> {})"
proof -
  have "list_ex (\<lambda>r. r \<in> set (ProcessedMediaItem.restrictions it)) (filter (\<lambda>r. r \<noteq> lit ''none'') selected) \<longleftrightarrow>
        set (ProcessedMediaItem.restrictions it) \<inter> (set selected - {lit ''none''}) \<noteq> {}"
    unfolding list_ex_iff by auto
  then show ?thesis
    unfolding passesFilters_def Let_def by (cases selected) auto
qed

text \<open>
  C1, as amended: a date bound removes a record only when the record's \<open>dateISO\<close> is
  non-empty and lies outside the bound. With \<open>dateFrom = d1\<close> the layer keeps, among the
  records that pass the other filters, exactly those whose \<open>dateISO\<close> is empty or is
  \<open>\<ge> d1\<close> in the lexicographic order (all of them when \<open>d1\<close> is the empty string); with
  \<open>dateTo = d2\<close>, those whose \<open>dateISO\<close> is empty or \<open>\<le> d2\<close>.
\<close>

theorem applyFilters_dates:
  "applyFilters items credit (Some d1) dateTo selected =
     filter (\<lambda>x. d1 = [] \<or> dateISO (item x) = [] \<or> d1 \<le> dateISO (item x))
       (applyFilters items credit None dateTo selected) \<and>
   applyFilters items credit dateFrom (Some d2) selected =
     filter (\<lambda>x. d2 = [] \<or> dateISO (item x) = [] \<or> dateISO (item x) \<le> d2)
       (applyFilters items credit dateFrom None selected)"
proof
  show "applyFilters items credit (Some d1) dateTo selected =
     filter (\<lambda>x. d1 = [] \<or> dateISO (item x) = [] \<or> d1 \<le> dateISO (item x))
       (applyFilters items credit None dateTo selected)"
    unfolding applyFilters_def filter_filter
    by (rule filter_cong [OF refl]) (use passesFilters_dateFrom [of credit d1] in blast)
  show "applyFilters items credit dateFrom (Some d2) selected =
     filter (\<lambda>x. d2 = [] \<or> dateISO (item x) = [] \<or> dateISO (item x) \<le> d2)
       (applyFilters items credit dateFrom None selected)"
    unfolding applyFilters_def filter_filter
    by (rule filter_cong [OF refl]) (use passesFilters_dateTo [of credit dateFrom d2] in blast)
qed

theorem applyFilters_dates_witness:
  "applyFilters
     [Some \<lparr>item = mkItem (lit ''a1'') (lit ''Berlin'') (lit ''IMAGO'') (lit ''2024-03-14'') [], score = 0, matchedTerms = []\<rparr>,
      Some \<lparr>item = mkItem (lit ''a2'') (lit ''Hamburg'') (lit ''IMAGO'') (lit ''2023-12-31'') [], score = 0, matchedTerms = []\<rparr>,
      Some \<lparr>item = mkItem (lit ''a3'') (lit ''Bremen'') (lit ''IMAGO'') [] [], score = 0, matchedTerms = []\<rparr>]
     None (Some (lit ''2024-01-01'')) None [] =
     [\<lparr>item = mkItem (lit ''a1'') (lit ''Berlin'') (lit ''IMAGO'') (lit ''2024-03-14'') [], score = 0, matchedTerms = []\<rparr>,
      \<lparr>item = mkItem (lit ''a3'') (lit ''Bremen'') (lit ''IMAGO'') [] [], score = 0, matchedTerms = []\<rparr>]"
proof -
  have 1: "(lit ''2024-01-01'' :: jsString) \<le> lit ''2024-03-14''" by code_simp
  have 2: "\<not> (lit ''2024-01-01'' :: jsString) \<le> lit ''2023-12-31''" by code_simp
  have 3: "applyFilters xs None None None [] = present xs" for xs
    unfolding applyFilters_def passesFilters_def by simp
  have 4: "dateISO (mkItem i t c d m) = d" for i t c d m unfolding mkItem_def by simp
  show ?thesis
    using applyFilters_dates [of _ None "lit ''2024-01-01''" None "[]"] unfolding 3
    by (simp add: 1 2 4)
qed

text \<open>
  C1 as stated fails: a record with the empty \<open>dateISO\<close> is kept although \<open>dateFrom\<close> is
  set.
\<close>

theorem applyFilters_dates_counterexample:
  "dateISO (mkItem (lit ''a3'') (lit ''Bremen'') (lit ''IMAGO'') [] []) = [] \<and>
   applyFilters
     [Some \<lparr>item = mkItem (lit ''a3'') (lit ''Bremen'') (lit ''IMAGO'') [] [], score = 0, matchedTerms = []\<rparr>]
     None (Some (lit ''2024-01-01'')) None [] =
     [\<lparr>item = mkItem (lit ''a3'') (lit ''Bremen'') (lit ''IMAGO'') [] [], score = 0, matchedTerms = []\<rparr>]"
  unfolding applyFilters_def passesFilters_def mkItem_def by simp

text \<open>
  C5: among the records that pass the other filters, a non-empty selection \<open>R\<close> keeps
  exactly the records that have no markers when \<open>none\<close> is in \<open>R\<close>, or have a marker in
  \<open>R\<close> other than \<open>none\<close>; the selection \<open>[none]\<close> alone keeps exactly the records with no
  markers, and the empty selection filters nothing.
\<close>

theorem applyFilters_restrictions:
  "applyFilters items credit dateFrom dateTo selected =
     filter (\<lambda>x. selected = [] \<or> (lit ''none'' \<in> set selected \<and> ProcessedMediaItem.restrictions (item x) = []) \<or>
                 set (ProcessedMediaItem.restrictions (item x)) \<inter> (set selected - {lit ''none''}) \<noteq> {})
       (applyFilters items credit dateFrom dateTo []) \<and>
   applyFilters items None None None [lit ''none''] =
     filter (\<lambda>x. ProcessedMediaItem.restrictions (item x) = []) (present items) \<and>
   applyFilters items None None None [] = present items"
proof (intro conjI)
  show "applyFilters items credit dateFrom dateTo selected =
     filter (\<lambda>x. selected = [] \<or> (lit ''none'' \<in> set selected \<and> ProcessedMediaItem.restrictions (item x) = []) \<or>
                 set (ProcessedMediaItem.restrictions (item x)) \<inter> (set selected - {lit ''none''}) \<noteq> {})
       (applyFilters items credit dateFrom dateTo [])"
    unfolding applyFilters_def filter_filter
    by (rule filter_cong [OF refl]) (use passesFilters_selected [of credit dateFrom dateTo selected] in blast)
  show "applyFilters items None None None [lit ''none''] =
     filter (\<lambda>x. ProcessedMediaItem.restrictions (item x) = []) (present items)"
    unfolding applyFilters_def passesFilters_def by simp
  show "applyFilters items None None None [] = present items"
    unfolding applyFilters_def passesFilters_def by simp
qed


theorem applyFilters_restrictions_witness:
  "applyFilters
     [Some \<lparr>item = mkItem (lit ''a1'') (lit ''Berlin'') (lit ''IMAGO'') (lit ''2024-03-14'') [], score = 0, matchedTerms = []\<rparr>,
      Some \<lparr>item = mkItem (lit ''a2'') (lit ''Hamburg'') (lit ''IMAGO'') (lit ''2023-12-31'') [lit ''NOxMODELxRELEASE''], score = 0, matchedTerms = []\<rparr>,
      Some \<lparr>item = mkItem (lit ''a3'') (lit ''Bremen'') (lit ''IMAGO'') [] [lit ''PUBLICATIONxINxGERxONLY''], score = 0, matchedTerms = []\<rparr>]
     None None None [lit ''none'', lit ''NOxMODELxRELEASE''] =
     [\<lparr>item = mkItem (lit ''a1'') (lit ''Berlin'') (lit ''IMAGO'') (lit ''2024-03-14'') [], score = 0, matchedTerms = []\<rparr>,
      \<lparr>item = mkItem (lit ''a2'') (lit ''Hamburg'') (lit ''IMAGO'') (lit ''2023-12-31'') [lit ''NOxMODELxRELEASE''], score = 0, matchedTerms = []\<rparr>]"
proof -
  have 4: "ProcessedMediaItem.restrictions (mkItem i t c d m) = m" for i t c d m unfolding mkItem_def by simp
  have 5: "applyFilters xs None None None [] = present xs" for xs
    unfolding applyFilters_def passesFilters_def by simp
  show ?thesis
    using applyFilters_restrictions [of _ None None None "[lit ''none'', lit ''NOxMODELxRELEASE'']"]
    unfolding 5 by (simp add: 4)
qed

section \<open>Inverted index\<close>

lemma distinct_addPosting:
  "distinct (map_keys tp) \<Longrightarrow> distinct (map_keys (addPosting d tp tf))"
  unfolding addPosting_def Let_def by (simp add: distinct_map_set split: option.splits)

lemma distinct_foldl_addPosting:
  "distinct (map_keys tp) \<Longrightarrow> distinct (map_keys (foldl (addPosting d) tp tfs))"
  by (induction tfs arbitrary: tp) (simp_all add: distinct_addPosting)

lemma distinct_indexTokens:
  "distinct (map_keys (termPostings fi)) \<Longrightarrow>
   distinct (map_keys (termPostings (indexTokens fi d tokens)))"
  unfolding indexTokens_def Let_def by (simp add: distinct_foldl_addPosting)

lemma keysDistinct_new: "keysDistinct newInvertedIndex"
  unfolding keysDistinct_def newInvertedIndex_def createEmptyFieldIndex_def map_keys_def by simp

lemma keysDistinct_addDocument: "keysDistinct idx \<Longrightarrow> keysDistinct (addDocument d it idx)"
  unfolding keysDistinct_def addDocument_def Let_def by (simp add: distinct_indexTokens)

lemma keysDistinct_foldl:
  "keysDistinct idx \<Longrightarrow> keysDistinct (foldl (\<lambda>idx (i, it). addDocument i it idx) idx calls)"
  by (induction calls arbitrary: idx) (auto simp: keysDistinct_addDocument)

lemma termPostings_finalizeIndex:
  "termPostings (getFieldIndex (finalizeIndex idx) f) = termPostings (getFieldIndex idx f)"
  unfolding finalizeIndex_def getFieldIndex_def by (cases f) simp_all

lemma termsSorted_finalizeIndex:
  "suchtextTermsSorted (finalizeIndex idx) = sort (map_keys (termPostings (suchtextIndex idx)))"
  "fotografenTermsSorted (finalizeIndex idx) =
     sort (map_keys (termPostings (fotografenIndex idx)))"
  "bildnummerTermsSorted (finalizeIndex idx) =
     sort (map_keys (termPostings (bildnummerIndex idx)))"
  unfolding finalizeIndex_def by simp_all

lemma fieldIndex_finalizeIndex:
  "termPostings (suchtextIndex (finalizeIndex idx)) = termPostings (suchtextIndex idx)"
  "termPostings (fotografenIndex (finalizeIndex idx)) = termPostings (fotografenIndex idx)"
  "termPostings (bildnummerIndex (finalizeIndex idx)) = termPostings (bildnummerIndex idx)"
  unfolding finalizeIndex_def by simp_all

lemma keysDistinct_field: "keysDistinct idx \<Longrightarrow> distinct (map_keys (termPostings (getFieldIndex idx f)))"
  unfolding keysDistinct_def getFieldIndex_def by (cases f) simp_all

lemma keysDistinct_buildIndex:
  "distinct (map_keys (termPostings (suchtextIndex (buildIndex calls))))"
  "distinct (map_keys (termPostings (fotografenIndex (buildIndex calls))))"
  "distinct (map_keys (termPostings (bildnummerIndex (buildIndex calls))))"
proof -
  have "keysDistinct (foldl (\<lambda>idx (i, it). addDocument i it idx) newInvertedIndex calls)"
    by (intro keysDistinct_foldl keysDistinct_new)
  then show
    "distinct (map_keys (termPostings (suchtextIndex (buildIndex calls))))"
    "distinct (map_keys (termPostings (fotografenIndex (buildIndex calls))))"
    "distinct (map_keys (termPostings (bildnummerIndex (buildIndex calls))))"
    unfolding buildIndex_def keysDistinct_def by (simp_all add: fieldIndex_finalizeIndex)
qed

lemma termsSorted_buildIndex:
  "suchtextTermsSorted (buildIndex calls) =
     sort (map_keys (termPostings (suchtextIndex (buildIndex calls))))"
  "fotografenTermsSorted (buildIndex calls) =
     sort (map_keys (termPostings (fotografenIndex (buildIndex calls))))"
  "bildnummerTermsSorted (buildIndex calls) =
     sort (map_keys (termPostings (bildnummerIndex (buildIndex calls))))"
  unfolding buildIndex_def by (simp_all add: termsSorted_finalizeIndex fieldIndex_finalizeIndex)

lemma unitValue_eq_iff: "unitValue u = unitValue v \<longleftrightarrow> u = v"
  using codeunit_less_iff [of u v] codeunit_less_iff [of v u]
  by (metis less_irrefl not_less_iff_gr_or_eq)

lemma jsString_less_iff: "s < t \<longleftrightarrow> map unitValue s < map unitValue (t :: jsString)"
proof (induction s arbitrary: t)
  case Nil
  show ?case by (cases t) simp_all
next
  case (Cons u s)
  show ?case
  proof (cases t)
    case Nil
    then show ?thesis by simp
  next
    case (Cons v t')
    then show ?thesis
      using Cons.IH [of t'] by (simp add: codeunit_less_iff unitValue_eq_iff)
  qed
qed

lemma codePoints_no_surrogates:
  "\<not> list_ex isSurrogate s \<Longrightarrow> codePoints s = map unitValue s"
  by (induction s rule: codePoints.induct) (simp_all add: isSurrogate_def)

lemma sorted_codePoints:
  assumes "sorted_wrt (<) terms" and "\<not> list_ex (list_ex isSurrogate) terms"
  shows "sorted_wrt (<) (map codePoints terms)"
proof -
  have "sorted_wrt (\<lambda>s t. codePoints s < codePoints t) terms"
  proof (rule sorted_wrt_mono_rel [OF _ assms(1)])
    fix s t assume "s \<in> set terms" "t \<in> set terms" "s < t"
    moreover from this assms(2) have "codePoints s = map unitValue s"
      "codePoints t = map unitValue t"
      by (auto simp: list_ex_iff intro!: codePoints_no_surrogates)
    ultimately show "codePoints s < codePoints t" using jsString_less_iff [of s t] by simp
  qed
  then show ?thesis by (simp add: sorted_wrt_map)
qed

lemma vocabulary_sort:
  assumes "terms = sort keys" and "distinct keys"
  shows "set terms = set keys" "distinct terms" "sorted_wrt (<) (terms :: jsString list)"
proof -
  show "set terms = set keys" unfolding assms(1) by simp
  show "distinct terms" unfolding assms(1) using assms(2) by simp
  show "sorted_wrt (<) terms" unfolding assms(1) using assms(2) by (simp add: strict_sorted_iff)
qed

text \<open>
  C8, as amended: after any sequence of \<open>addDocument\<close> calls on a new index and
  \<open>finalizeIndex\<close>, the sorted term array of each of the three fields is the sort of the
  keys of that field's term map: it has exactly those keys, none twice, in strictly
  ascending order of UTF-16 code units, the order of \<open>sort()\<close> with no comparison
  function. When no term of the array holds a surrogate code unit, this is the ascending
  order of code points.
\<close>

theorem finalizeIndex_vocabulary:
  "suchtextTermsSorted (buildIndex calls) =
     sort (map_keys (termPostings (suchtextIndex (buildIndex calls)))) \<and>
   set (suchtextTermsSorted (buildIndex calls)) =
     set (map_keys (termPostings (suchtextIndex (buildIndex calls)))) \<and>
   distinct (suchtextTermsSorted (buildIndex calls)) \<and>
   sorted_wrt (<) (map (map unitValue) (suchtextTermsSorted (buildIndex calls))) \<and>
   (\<not> list_ex (list_ex isSurrogate) (suchtextTermsSorted (buildIndex calls)) \<longrightarrow>
    sorted_wrt (<) (map codePoints (suchtextTermsSorted (buildIndex calls)))) \<and>
   fotografenTermsSorted (buildIndex calls) =
     sort (map_keys (termPostings (fotografenIndex (buildIndex calls)))) \<and>
   set (fotografenTermsSorted (buildIndex calls)) =
     set (map_keys (termPostings (fotografenIndex (buildIndex calls)))) \<and>
   distinct (fotografenTermsSorted (buildIndex calls)) \<and>
   sorted_wrt (<) (map (map unitValue) (fotografenTermsSorted (buildIndex calls))) \<and>
   (\<not> list_ex (list_ex isSurrogate) (fotografenTermsSorted (buildIndex calls)) \<longrightarrow>
    sorted_wrt (<) (map codePoints (fotografenTermsSorted (buildIndex calls)))) \<and>
   bildnummerTermsSorted (buildIndex calls) =
     sort (map_keys (termPostings (bildnummerIndex (buildIndex calls)))) \<and>
   set (bildnummerTermsSorted (buildIndex calls)) =
     set (map_keys (termPostings (bildnummerIndex (buildIndex calls)))) \<and>
   distinct (bildnummerTermsSorted (buildIndex calls)) \<and>
   sorted_wrt (<) (map (map unitValue) (bildnummerTermsSorted (buildIndex calls))) \<and>
   (\<not> list_ex (list_ex isSurrogate) (bildnummerTermsSorted (buildIndex calls)) \<longrightarrow>
    sorted_wrt (<) (map codePoints (bildnummerTermsSorted (buildIndex calls))))"
proof -
  note s = vocabulary_sort [OF termsSorted_buildIndex(1) keysDistinct_buildIndex(1), of calls]
  note f = vocabulary_sort [OF termsSorted_buildIndex(2) keysDistinct_buildIndex(2), of calls]
  note b = vocabulary_sort [OF termsSorted_buildIndex(3) keysDistinct_buildIndex(3), of calls]
  show ?thesis
    using termsSorted_buildIndex [of calls] s f b
      sorted_codePoints [OF s(3)] sorted_codePoints [OF f(3)] sorted_codePoints [OF b(3)]
    by (simp add: sorted_wrt_map jsString_less_iff [symmetric])
qed

theorem finalizeIndex_vocabulary_witness:
  "suchtextTermsSorted
     (buildIndex
        [(0, mkItem (lit ''a1'') (lit ''Berlin Bergen'') (lit ''Anna Schmidt'') (lit ''2024-03-14'') []),
         (1, mkItem (lit ''a2'') (lit ''Hamburg'') (lit ''Anna Schmidt'') (lit ''2023-12-31'') [])]) =
     [lit ''bergen'', lit ''berlin'', lit ''hamburg''] \<and>
   fotografenTermsSorted
     (buildIndex
        [(0, mkItem (lit ''a1'') (lit ''Berlin Bergen'') (lit ''Anna Schmidt'') (lit ''2024-03-14'') []),
         (1, mkItem (lit ''a2'') (lit ''Hamburg'') (lit ''Anna Schmidt'') (lit ''2023-12-31'') [])]) =
     [lit ''anna'', lit ''schmidt''] \<and>
   bildnummerTermsSorted
     (buildIndex
        [(0, mkItem (lit ''a1'') (lit ''Berlin Bergen'') (lit ''Anna Schmidt'') (lit ''2024-03-14'') []),
         (1, mkItem (lit ''a2'') (lit ''Hamburg'') (lit ''Anna Schmidt'') (lit ''2023-12-31'') [])]) =
     [lit ''a1'', lit ''a2''] \<and>
   sorted_wrt (<) (map codePoints [lit ''bergen'', lit ''berlin'', lit ''hamburg'']) \<and>
   sorted_wrt (<) (map codePoints [lit ''anna'', lit ''schmidt'']) \<and>
   sorted_wrt (<) (map codePoints [lit ''a1'', lit ''a2''])"
proof -
  define calls where "calls =
    [(0 :: nat, mkItem (lit ''a1'') (lit ''Berlin Bergen'') (lit ''Anna Schmidt'') (lit ''2024-03-14'') []),
     (1, mkItem (lit ''a2'') (lit ''Hamburg'') (lit ''Anna Schmidt'') (lit ''2023-12-31'') [])]"
  have s: "suchtextTermsSorted (buildIndex calls) = [lit ''bergen'', lit ''berlin'', lit ''hamburg'']"
    unfolding calls_def by code_simp
  have f: "fotografenTermsSorted (buildIndex calls) = [lit ''anna'', lit ''schmidt'']"
    unfolding calls_def by code_simp
  have b: "bildnummerTermsSorted (buildIndex calls) = [lit ''a1'', lit ''a2'']"
    unfolding calls_def by code_simp
  have n: "\<not> list_ex (list_ex isSurrogate) [lit ''bergen'', lit ''berlin'', lit ''hamburg'']"
    "\<not> list_ex (list_ex isSurrogate) [lit ''anna'', lit ''schmidt'']"
    "\<not> list_ex (list_ex isSurrogate) [lit ''a1'', lit ''a2'']"
    by (simp_all add: isSurrogate_def isHighSurrogate_def isLowSurrogate_def)
  note t = finalizeIndex_vocabulary [of calls, unfolded s f b]
  from t n have c:
    "sorted_wrt (<) (map codePoints [lit ''bergen'', lit ''berlin'', lit ''hamburg''])"
    "sorted_wrt (<) (map codePoints [lit ''anna'', lit ''schmidt''])"
    "sorted_wrt (<) (map codePoints [lit ''a1'', lit ''a2''])"
    by blast+
  show ?thesis unfolding calls_def [symmetric] using s f b c by blast
qed

text \<open>
  C8 as stated fails: a term that is one code point beyond U+FFFF, two surrogate
  code units, stands in the sorted array before a term of code units from U+E000 on,
  whose code points are smaller.
\<close>

theorem finalizeIndex_counterexample:
  "suchtextTermsSorted
     (buildIndex
        [(0, mkItem (lit ''a1'')
               [PrivateUse (CHR 0x00), PrivateUse (CHR 0x00), Latin1 (CHR '' ''),
                HighSurrogate, LowSurrogate (CHR 0x00)]
               (lit ''IMAGO'') (lit ''2024-03-14'') [])]) =
     [[HighSurrogate, LowSurrogate (CHR 0x00)], [PrivateUse (CHR 0x00), PrivateUse (CHR 0x00)]] \<and>
   codePoints [HighSurrogate, LowSurrogate (CHR 0x00)] = [0x1F600] \<and>
   codePoints [PrivateUse (CHR 0x00), PrivateUse (CHR 0x00)] = [0xE000, 0xE000] \<and>
   \<not> sorted
       (map codePoints
          (suchtextTermsSorted
             (buildIndex
                [(0, mkItem (lit ''a1'')
                       [PrivateUse (CHR 0x00), PrivateUse (CHR 0x00), Latin1 (CHR '' ''),
                        HighSurrogate, LowSurrogate (CHR 0x00)]
                       (lit ''IMAGO'') (lit ''2024-03-14'') [])])))"
proof -
  have s: "suchtextTermsSorted
     (buildIndex
        [(0, mkItem (lit ''a1'')
               [PrivateUse (CHR 0x00), PrivateUse (CHR 0x00), Latin1 (CHR '' ''),
                HighSurrogate, LowSurrogate (CHR 0x00)]
               (lit ''IMAGO'') (lit ''2024-03-14'') [])]) =
     [[HighSurrogate, LowSurrogate (CHR 0x00)], [PrivateUse (CHR 0x00), PrivateUse (CHR 0x00)]]"
    by code_simp
  show ?thesis
    unfolding s by (simp add: isHighSurrogate_def isLowSurrogate_def)
qed

lemma prefix_le: "prefix p t \<Longrightarrow> p \<le> (t :: 'a :: linorder list)"
proof (induction p arbitrary: t)
  case Nil
  show ?case by simp
next
  case (Cons x p)
  then obtain t' where "t = x # t'" "prefix p t'" by (cases t) auto
  then show ?case using Cons.IH by simp
qed

lemma prefix_between:
  "prefix p c \<Longrightarrow> p \<le> a \<Longrightarrow> a \<le> c \<Longrightarrow> prefix p (a :: 'a :: linorder list)"
proof (induction p arbitrary: a c)
  case Nil
  show ?case by simp
next
  case (Cons x p)
  from Cons.prems(1) obtain c' where c: "c = x # c'" "prefix p c'" by (cases c) auto
  from Cons.prems(2) obtain y a' where a: "a = y # a'" by (cases a) auto
  from Cons.prems(2) a have 1: "x < y \<or> x = y \<and> p \<le> a'" by simp
  from Cons.prems(3) a c have 2: "y < x \<or> y = x \<and> a' \<le> c'" by simp
  from 1 2 have "x = y" "p \<le> a'" "a' \<le> c'" by auto
  then show ?case using Cons.IH [OF c(2)] a by simp
qed

lemma lowerBound_correct:
  "sorted terms \<Longrightarrow> lo \<le> hi \<Longrightarrow> hi \<le> length terms \<Longrightarrow>
   (\<forall>i < lo. terms ! i < pfx) \<Longrightarrow>
   (\<forall>i. hi \<le> i \<and> i < length terms \<longrightarrow> \<not> terms ! i < pfx) \<Longrightarrow>
   lowerBound terms pfx lo hi \<le> length terms \<and>
   (\<forall>i < lowerBound terms pfx lo hi. terms ! i < pfx) \<and>
   (\<forall>i. lowerBound terms pfx lo hi \<le> i \<and> i < length terms \<longrightarrow> \<not> terms ! i < pfx)"
proof (induction terms pfx lo hi rule: lowerBound.induct)
  case (1 terms pfx lo hi)
  show ?case
  proof (cases "lo < hi")
    case False
    then have "lowerBound terms pfx lo hi = lo" by (simp add: lowerBound.simps)
    moreover have "lo = hi" using False "1.prems"(2) by simp
    ultimately show ?thesis using "1.prems" by simp
  next
    case True
    define mid where "mid = (lo + hi) div 2"
    have m: "lo \<le> mid" "mid < hi" using True unfolding mid_def by auto
    show ?thesis
    proof (cases "terms ! mid < pfx")
      case less: True
      have eq: "lowerBound terms pfx lo hi = lowerBound terms pfx (mid + 1) hi"
        using True less unfolding mid_def by (subst lowerBound.simps) (simp add: Let_def)
      have inv: "\<forall>i < mid + 1. terms ! i < pfx"
      proof (intro allI impI)
        fix i assume "i < mid + 1"
        then have "i \<le> mid" by simp
        moreover have "mid < length terms" using m "1.prems"(3) by simp
        ultimately have "terms ! i \<le> terms ! mid"
          using "1.prems"(1) by (simp add: sorted_nth_mono)
        then show "terms ! i < pfx" using less by simp
      qed
      show ?thesis unfolding eq
        using "1.IH"(1) [OF True mid_def less "1.prems"(1) _ "1.prems"(3) inv "1.prems"(5)] m
        by simp
    next
      case geq: False
      have eq: "lowerBound terms pfx lo hi = lowerBound terms pfx lo mid"
        using True geq unfolding mid_def by (subst lowerBound.simps) (simp add: Let_def)
      have inv: "\<forall>i. mid \<le> i \<and> i < length terms \<longrightarrow> \<not> terms ! i < pfx"
      proof (intro allI impI)
        fix i assume i: "mid \<le> i \<and> i < length terms"
        then have "terms ! mid \<le> terms ! i"
          using "1.prems"(1) by (simp add: sorted_nth_mono)
        then show "\<not> terms ! i < pfx" using geq by auto
      qed
      have le: "mid \<le> length terms" using m "1.prems"(3) by simp
      show ?thesis unfolding eq
        using "1.IH"(2) [OF True mid_def geq "1.prems"(1) m(1) le "1.prems"(4) inv]
        by simp
    qed
  qed
qed

lemma filter_prefix_takeWhile:
  "sorted xs \<Longrightarrow> \<forall>x \<in> set xs. pfx \<le> x \<Longrightarrow> filter (prefix pfx) xs = takeWhile (prefix pfx) xs"
proof (induction xs)
  case Nil
  show ?case by simp
next
  case (Cons x xs)
  show ?case
  proof (cases "prefix pfx x")
    case True
    then show ?thesis using Cons by simp
  next
    case False
    have "\<forall>y \<in> set xs. \<not> prefix pfx y"
    proof
      fix y assume y: "y \<in> set xs"
      show "\<not> prefix pfx y"
      proof
        assume "prefix pfx y"
        moreover have "pfx \<le> x" using Cons.prems(2) by simp
        moreover have "x \<le> y" using Cons.prems(1) y by simp
        ultimately have "prefix pfx x" by (rule prefix_between)
        then show False using False by simp
      qed
    qed
    then have "filter (prefix pfx) xs = []" by (simp add: filter_empty_conv)
    then show ?thesis using False by simp
  qed
qed

lemma collectMatches_eq:
  "length acc \<le> limit \<Longrightarrow>
   collectMatches pfx limit xs acc = acc @ take (limit - length acc) (takeWhile (prefix pfx) xs)"
proof (induction xs arbitrary: acc)
  case Nil
  show ?case by simp
next
  case (Cons x xs)
  show ?case
  proof (cases "length acc < limit")
    case False
    then show ?thesis using Cons.prems by simp
  next
    case True
    show ?thesis
    proof (cases "prefix pfx x")
      case False
      then show ?thesis using True by simp
    next
      case p: True
      have "collectMatches pfx limit (x # xs) acc = collectMatches pfx limit xs (acc @ [x])"
        using True p by simp
      also have "\<dots> = (acc @ [x]) @ take (limit - length (acc @ [x])) (takeWhile (prefix pfx) xs)"
        using True by (intro Cons.IH) simp
      also have "\<dots> = acc @ take (limit - length acc) (takeWhile (prefix pfx) (x # xs))"
        using True p by (simp add: take_Cons' )
      finally show ?thesis .
    qed
  qed
qed

lemma getPrefixTerms_sorted:
  assumes "sorted terms"
    and "terms = (case f of
                    Suchtext \<Rightarrow> suchtextTermsSorted idx
                  | Fotografen \<Rightarrow> fotografenTermsSorted idx
                  | Bildnummer \<Rightarrow> bildnummerTermsSorted idx)"
  shows "getPrefixTerms idx pfx f limit =
     (if pfx = [] then [] else take limit (filter (prefix pfx) terms))"
proof (cases "terms = [] \<or> pfx = []")
  case True
  then show ?thesis unfolding getPrefixTerms_def Let_def assms(2) by auto
next
  case False
  define r where "r = lowerBound terms pfx 0 (length terms)"
  have s: "sorted terms" using assms(1) .
  have lb: "r \<le> length terms \<and> (\<forall>i < r. terms ! i < pfx) \<and>
      (\<forall>i. r \<le> i \<and> i < length terms \<longrightarrow> \<not> terms ! i < pfx)"
    unfolding r_def by (rule lowerBound_correct [OF s]) auto
  have low: "\<forall>x \<in> set (take r terms). x < pfx"
    using lb by (auto simp: in_set_conv_nth)
  have high: "\<forall>x \<in> set (drop r terms). pfx \<le> x"
  proof
    fix x assume "x \<in> set (drop r terms)"
    then obtain j where "j < length (drop r terms)" "x = drop r terms ! j"
      by (auto simp: in_set_conv_nth)
    then have "x = terms ! (r + j)" "r + j < length terms" using lb by auto
    then show "pfx \<le> x" using lb by (simp add: not_less)
  qed
  have "filter (prefix pfx) (take r terms) = []"
  proof -
    have "\<forall>x \<in> set (take r terms). \<not> prefix pfx x"
      using low prefix_le [of pfx] by (auto simp: not_less [symmetric])
    then show ?thesis by (simp add: filter_empty_conv)
  qed
  moreover have "filter (prefix pfx) (drop r terms) = takeWhile (prefix pfx) (drop r terms)"
    using s high by (intro filter_prefix_takeWhile) (simp_all add: sorted_wrt_drop)
  moreover have "filter (prefix pfx) terms =
      filter (prefix pfx) (take r terms) @ filter (prefix pfx) (drop r terms)"
    by (metis append_take_drop_id filter_append)
  ultimately have f: "filter (prefix pfx) terms = takeWhile (prefix pfx) (drop r terms)" by simp
  have "getPrefixTerms idx pfx f limit = collectMatches pfx limit (drop r terms) []"
    using False unfolding getPrefixTerms_def Let_def assms(2) [symmetric] r_def by simp
  also have "\<dots> = take limit (takeWhile (prefix pfx) (drop r terms))"
    by (simp add: collectMatches_eq)
  finally show ?thesis using False f by simp
qed

lemma getPrefixTerms_finalizeIndex:
  "getPrefixTerms (finalizeIndex idx) pfx f limit =
     (if pfx = [] then []
      else take limit
             (filter (prefix pfx)
                (sort (map_keys (termPostings (getFieldIndex (finalizeIndex idx) f))))))"
  by (rule getPrefixTerms_sorted)
     (cases f; simp add: termsSorted_finalizeIndex fieldIndex_finalizeIndex getFieldIndex_def)+

text \<open>
  C6: on a finalized index \<open>getPrefixTerms\<close> returns, for a non-empty prefix and each of
  the three fields, the first \<open>limit\<close> of the terms of the field's sorted vocabulary, the
  sorted keys of the field's own term map, that start with the prefix (all of them when
  there are fewer), in the ascending order of the vocabulary; so its length is the
  minimum of \<open>limit\<close> and the number of such keys. It returns the empty list for the
  empty prefix, for the limit \<open>0\<close> and when the field's vocabulary is empty.
\<close>

theorem getPrefixTerms_finalized:
  "getPrefixTerms (finalizeIndex idx) pfx Suchtext limit =
     (if pfx = [] then []
      else take limit
             (filter (prefix pfx)
                (sort (map_keys (termPostings (suchtextIndex (finalizeIndex idx))))))) \<and>
   getPrefixTerms (finalizeIndex idx) pfx Fotografen limit =
     (if pfx = [] then []
      else take limit
             (filter (prefix pfx)
                (sort (map_keys (termPostings (fotografenIndex (finalizeIndex idx))))))) \<and>
   getPrefixTerms (finalizeIndex idx) pfx Bildnummer limit =
     (if pfx = [] then []
      else take limit
             (filter (prefix pfx)
                (sort (map_keys (termPostings (bildnummerIndex (finalizeIndex idx))))))) \<and>
   length (getPrefixTerms (finalizeIndex idx) pfx f limit) =
     (if pfx = [] then 0
      else min limit
             (length (filter (prefix pfx)
                (map_keys (termPostings (getFieldIndex (finalizeIndex idx) f)))))) \<and>
   sorted (getPrefixTerms (finalizeIndex idx) pfx f limit) \<and>
   getPrefixTerms (finalizeIndex idx) pfx f 0 = [] \<and>
   getPrefixTerms (finalizeIndex idx) [] f limit = [] \<and>
   (map_keys (termPostings (getFieldIndex (finalizeIndex idx) f)) = [] \<longrightarrow>
    getPrefixTerms (finalizeIndex idx) pfx f limit = [])"
proof -
  note eq = getPrefixTerms_finalizeIndex [of idx]
  have 1: "getPrefixTerms (finalizeIndex idx) pfx Suchtext limit =
     (if pfx = [] then []
      else take limit
             (filter (prefix pfx)
                (sort (map_keys (termPostings (suchtextIndex (finalizeIndex idx)))))))"
    unfolding eq getFieldIndex_def by simp
  have 2: "getPrefixTerms (finalizeIndex idx) pfx Fotografen limit =
     (if pfx = [] then []
      else take limit
             (filter (prefix pfx)
                (sort (map_keys (termPostings (fotografenIndex (finalizeIndex idx)))))))"
    unfolding eq getFieldIndex_def by simp
  have 3: "getPrefixTerms (finalizeIndex idx) pfx Bildnummer limit =
     (if pfx = [] then []
      else take limit
             (filter (prefix pfx)
                (sort (map_keys (termPostings (bildnummerIndex (finalizeIndex idx)))))))"
    unfolding eq getFieldIndex_def by simp
  have 4: "length (getPrefixTerms (finalizeIndex idx) pfx f limit) =
     (if pfx = [] then 0
      else min limit
             (length (filter (prefix pfx)
                (map_keys (termPostings (getFieldIndex (finalizeIndex idx) f))))))"
    unfolding eq by (simp add: filter_sort min.commute)
  have 5: "sorted (getPrefixTerms (finalizeIndex idx) pfx f limit)"
    unfolding eq by (simp add: sorted_wrt_take sorted_wrt_filter)
  have 6: "getPrefixTerms (finalizeIndex idx) pfx f 0 = []" unfolding eq by simp
  have 7: "getPrefixTerms (finalizeIndex idx) [] f limit = []" unfolding eq by simp
  have 8: "map_keys (termPostings (getFieldIndex (finalizeIndex idx) f)) = [] \<longrightarrow>
      getPrefixTerms (finalizeIndex idx) pfx f limit = []"
    unfolding eq by simp
  show ?thesis using 1 2 3 4 5 6 7 8 by blast
qed

theorem getPrefixTerms_finalized_witness:
  "getPrefixTerms
     (searchIndex
        [mkItem (lit ''7'') (lit ''Berlin Bergen Bern Hamburg'') (lit ''Bernd Berg'')
           (lit ''2024-03-14'') []])
     (lit ''ber'') Suchtext 2 = [lit ''bergen'', lit ''berlin''] \<and>
   getPrefixTerms
     (searchIndex
        [mkItem (lit ''7'') (lit ''Berlin Bergen Bern Hamburg'') (lit ''Bernd Berg'')
           (lit ''2024-03-14'') []])
     (lit ''ber'') Fotografen 2 = [lit ''berg'', lit ''bernd''] \<and>
   map_keys (termPostings (getFieldIndex
     (searchIndex
        [mkItem (lit ''7'') (lit ''Berlin Bergen Bern Hamburg'') (lit ''Bernd Berg'')
           (lit ''2024-03-14'') []]) Bildnummer)) = [] \<and>
   getPrefixTerms
     (searchIndex
        [mkItem (lit ''7'') (lit ''Berlin Bergen Bern Hamburg'') (lit ''Bernd Berg'')
           (lit ''2024-03-14'') []])
     (lit ''ber'') Bildnummer 2 = []"
proof -
  define idx where "idx =
    foldl (\<lambda>idx (i, it). addDocument i it idx) newInvertedIndex
      (enumerate 0
         [mkItem (lit ''7'') (lit ''Berlin Bergen Bern Hamburg'') (lit ''Bernd Berg'')
            (lit ''2024-03-14'') []])"
  have i: "searchIndex
        [mkItem (lit ''7'') (lit ''Berlin Bergen Bern Hamburg'') (lit ''Bernd Berg'')
           (lit ''2024-03-14'') []] = finalizeIndex idx"
    unfolding searchIndex_def buildIndex_def idx_def ..
  have s: "sort (map_keys (termPostings (suchtextIndex (finalizeIndex idx)))) =
      [lit ''bergen'', lit ''berlin'', lit ''bern'', lit ''hamburg'']"
    unfolding idx_def by code_simp
  have f: "sort (map_keys (termPostings (fotografenIndex (finalizeIndex idx)))) =
      [lit ''berg'', lit ''bernd'']"
    unfolding idx_def by code_simp
  have b: "map_keys (termPostings (getFieldIndex (finalizeIndex idx) Bildnummer)) = []"
    unfolding idx_def by code_simp
  note t = getPrefixTerms_finalized [of idx "lit ''ber''" 2 Bildnummer]
  have 1: "getPrefixTerms (finalizeIndex idx) (lit ''ber'') Suchtext 2 =
      [lit ''bergen'', lit ''berlin'']"
    using conjunct1 [OF t] unfolding s by simp
  have 2: "getPrefixTerms (finalizeIndex idx) (lit ''ber'') Fotografen 2 =
      [lit ''berg'', lit ''bernd'']"
    using conjunct1 [OF conjunct2 [OF t]] unfolding f by simp
  have 3: "getPrefixTerms (finalizeIndex idx) (lit ''ber'') Bildnummer 2 = []"
    using t b by blast
  show ?thesis unfolding i using 1 2 3 b by blast
qed

section \<open>Browse mode\<close>

lemma documents_finalizeIndex [simp]: "documents (finalizeIndex idx) = documents idx"
  unfolding finalizeIndex_def by simp

lemma documents_addDocument [simp]:
  "documents (addDocument d it idx) = array_set (documents idx) d it"
  unfolding addDocument_def Let_def by simp

lemma array_set_end: "array_set xs (length xs) v = xs @ [Some v]"
  unfolding array_set_def by simp

lemma documents_foldl_enumerate:
  "length (documents idx) = n \<Longrightarrow>
   documents (foldl (\<lambda>idx (i, it). addDocument i it idx) idx (enumerate n xs)) =
     documents idx @ map Some xs"
proof (induction xs arbitrary: idx n)
  case Nil
  show ?case by simp
next
  case (Cons x xs)
  have "length (documents (addDocument n x idx)) = Suc n"
    using Cons.prems array_set_end [of "documents idx" x] by simp
  from Cons.IH [OF this] show ?case
    using Cons.prems array_set_end [of "documents idx" x] by simp
qed

lemma documents_searchIndex: "documents (searchIndex mediaItems) = map Some mediaItems"
  unfolding searchIndex_def buildIndex_def
  by (simp add: documents_foldl_enumerate newInvertedIndex_def)

lemma map_enumerate_snd: "map (\<lambda>(d, x). g x) (enumerate n xs) = map g xs"
  by (induction xs arbitrary: n) simp_all

lemma search_browse:
  assumes "tokenize query = []"
  shows "search lc query index config cache =
     (map (\<lambda>(d, slot).
            map_option (\<lambda>it. \<lparr>item = it, score = 0, matchedTerms = [], docId = d\<rparr>) slot)
        (enumerate 0 (getAllDocuments index)), cache)"
  using assms unfolding search_def Let_def by simp

text \<open>
  C3: on the finalized index of a corpus of \<open>N\<close> documents, a query that tokenizes to the
  empty list makes \<open>search\<close> return exactly \<open>N\<close> results, one per document, in ascending
  order of document id, each with score \<open>0\<close> and no matched terms; the cache stays as
  it is.
\<close>

theorem search_empty_tokens:
  assumes "tokenize query = []"
  shows "search lc query (searchIndex mediaItems) config cache =
     (map (\<lambda>(d, it). Some \<lparr>item = it, score = 0, matchedTerms = [], docId = d\<rparr>)
        (enumerate 0 mediaItems), cache) \<and>
   length (fst (search lc query (searchIndex mediaItems) config cache)) = length mediaItems \<and>
   map (map_option docId) (fst (search lc query (searchIndex mediaItems) config cache)) =
     map Some [0..<length mediaItems]"
proof -
  have e: "enumerate 0 (map Some mediaItems) = map (\<lambda>(d, it). (d, Some it)) (enumerate 0 mediaItems)"
    by (simp add: enumerate_eq_zip zip_map2 case_prod_unfold)
  have 1: "search lc query (searchIndex mediaItems) config cache =
     (map (\<lambda>(d, it). Some \<lparr>item = it, score = 0, matchedTerms = [], docId = d\<rparr>)
        (enumerate 0 mediaItems), cache)"
    unfolding search_browse [OF assms] getAllDocuments_def documents_searchIndex e
    by (simp add: case_prod_unfold)
  have f: "map fst (enumerate 0 mediaItems) = [0..<length mediaItems]"
    by (simp add: map_fst_enumerate)
  have "map (map_option docId) (map (\<lambda>(d, it). Some \<lparr>item = it, score = 0, matchedTerms = [], docId = d\<rparr>)
        (enumerate 0 mediaItems)) = map (Some \<circ> fst) (enumerate 0 mediaItems)"
    by (simp add: case_prod_unfold comp_def)
  also have "\<dots> = map Some (map fst (enumerate 0 mediaItems))" by (simp only: map_map)
  finally have 2: "map (map_option docId) (map (\<lambda>(d, it). Some \<lparr>item = it, score = 0, matchedTerms = [], docId = d\<rparr>)
        (enumerate 0 mediaItems)) = map Some [0..<length mediaItems]"
    unfolding f .
  have 3: "map (map_option docId) (fst (search lc query (searchIndex mediaItems) config cache)) =
     map Some [0..<length mediaItems]"
    unfolding 1 fst_conv by (rule 2)
  have 4: "length (fst (search lc query (searchIndex mediaItems) config cache)) = length mediaItems"
    unfolding 1 by simp
  show ?thesis using 1 3 4 by blast
qed


theorem search_empty_tokens_witness:
  "fst (search codeUnitCompare (lit ''der die'')
          (searchIndex [mkItem (lit ''a1'') (lit ''Berlin Portrait'') (lit ''IMAGO / Muller'') (lit ''2024-01-01'') [],
                        mkItem (lit ''a2'') (lit ''Hamburg Hafen'') (lit ''IMAGO / Meier'') (lit ''2024-03-14'') []])
          noOverrides []) =
     [Some \<lparr>item = mkItem (lit ''a1'') (lit ''Berlin Portrait'') (lit ''IMAGO / Muller'') (lit ''2024-01-01'') [],
             score = 0, matchedTerms = [], docId = 0\<rparr>,
      Some \<lparr>item = mkItem (lit ''a2'') (lit ''Hamburg Hafen'') (lit ''IMAGO / Meier'') (lit ''2024-03-14'') [],
             score = 0, matchedTerms = [], docId = 1\<rparr>]"
proof -
  have t: "tokenize (lit ''der die'') = []" by code_simp
  show ?thesis
    using search_empty_tokens [OF t, of codeUnitCompare
        "[mkItem (lit ''a1'') (lit ''Berlin Portrait'') (lit ''IMAGO / Muller'') (lit ''2024-01-01'') [],
          mkItem (lit ''a2'') (lit ''Hamburg Hafen'') (lit ''IMAGO / Meier'') (lit ''2024-03-14'') []]" noOverrides "[]"]
    by (simp add: enumerate_eq_zip upt_rec)
qed

lemma found_browse:
  assumes "tokenize qv = []"
  shows "map (map_option (\<lambda>r. \<lparr>item = item r, score = score r, matchedTerms = matchedTerms r\<rparr>))
           (fst (search lc qv index config cache)) = browseItems index"
    and "snd (search lc qv index config cache) = cache"
proof -
  have "map (map_option (\<lambda>r. \<lparr>item = item r, score = score r, matchedTerms = matchedTerms r\<rparr>))
           (fst (search lc qv index config cache)) =
        map (\<lambda>(d, slot). map_option (\<lambda>it. \<lparr>item = it, score = 0, matchedTerms = []\<rparr>) slot)
          (enumerate 0 (getAllDocuments index))"
    unfolding search_browse [OF assms]
    by (simp add: case_prod_unfold comp_def option.map_comp)
  also have "\<dots> = browseItems index"
    unfolding browseItems_def by (rule map_enumerate_snd)
  finally show "map (map_option (\<lambda>r. \<lparr>item = item r, score = score r, matchedTerms = matchedTerms r\<rparr>))
           (fst (search lc qv index config cache)) = browseItems index" .
  show "snd (search lc qv index config cache) = cache"
    unfolding search_browse [OF assms] by simp
qed

lemma GET_results_no_tokens:
  assumes "tokenize qv = []"
  shows "GET_results lc index (Some qv) credit dateFrom dateTo selected sortParam cache =
     ((case parseSort sortParam of
         Some order \<Rightarrow>
           sortByDate lc (applyFilters (browseItems index) credit dateFrom dateTo selected) order
       | None \<Rightarrow>
           if trim qv = []
           then sortByDate lc (applyFilters (browseItems index) credit dateFrom dateTo selected) Desc
           else applyFilters (browseItems index) credit dateFrom dateTo selected),
      cache)"
  unfolding GET_results_def Let_def
  by (simp add: found_browse [OF assms] split: option.splits)

lemma tokenize_Nil: "tokenize [] = []"
  unfolding tokenize_def by simp

lemma scores_browseItems:
  "list_all (\<lambda>x. score x = 0 \<and> matchedTerms x = []) (present (browseItems index))"
  unfolding browseItems_def list_all_iff present_def
  by (auto split: option.splits)

lemma set_sortByDate [simp]: "set (sortByDate lc xs order) = set xs"
  unfolding sortByDate_def by simp

lemma set_applyFilters_subset:
  "set (applyFilters items credit dateFrom dateTo selected) \<subseteq> set (present items)"
  unfolding applyFilters_def by auto

text \<open>
  C2, as amended: for a query whose tokens are all stopwords the route filters the same
  list as for the empty query, every document with score \<open>0\<close> and no matched terms, so
  the two outputs hold the same entries. They are equal whenever an explicit sort is
  requested or the query string is blank after trimming. With no explicit sort, the
  default date-descending order is applied only when the query string is blank after
  trimming; a stopword-only query that is not blank keeps the filtered list in document
  order.
\<close>

theorem GET_results_stopword_query:
  assumes "tokenize qv = []"
  shows "GET_results lc index (Some qv) credit dateFrom dateTo selected sortParam cache =
     ((case parseSort sortParam of
         Some order \<Rightarrow>
           sortByDate lc (applyFilters (browseItems index) credit dateFrom dateTo selected) order
       | None \<Rightarrow>
           if trim qv = []
           then sortByDate lc (applyFilters (browseItems index) credit dateFrom dateTo selected) Desc
           else applyFilters (browseItems index) credit dateFrom dateTo selected),
      cache) \<and>
   (parseSort sortParam \<noteq> None \<or> trim qv = [] \<longrightarrow>
      GET_results lc index (Some qv) credit dateFrom dateTo selected sortParam cache =
      GET_results lc index (Some []) credit dateFrom dateTo selected sortParam cache) \<and>
   set (fst (GET_results lc index (Some qv) credit dateFrom dateTo selected sortParam cache)) =
     set (fst (GET_results lc index (Some []) credit dateFrom dateTo selected sortParam cache)) \<and>
   list_all (\<lambda>x. score x = 0 \<and> matchedTerms x = [])
     (fst (GET_results lc index (Some qv) credit dateFrom dateTo selected sortParam cache))"
proof -
  define F where "F = applyFilters (browseItems index) credit dateFrom dateTo selected"
  have 1: "GET_results lc index (Some qv) credit dateFrom dateTo selected sortParam cache =
     ((case parseSort sortParam of
         Some order \<Rightarrow> sortByDate lc F order
       | None \<Rightarrow> if trim qv = [] then sortByDate lc F Desc else F), cache)"
    unfolding F_def by (rule GET_results_no_tokens [OF assms])
  have 0: "GET_results lc index (Some []) credit dateFrom dateTo selected sortParam cache =
     ((case parseSort sortParam of
         Some order \<Rightarrow> sortByDate lc F order
       | None \<Rightarrow> sortByDate lc F Desc), cache)"
    unfolding F_def using GET_results_no_tokens [OF tokenize_Nil, of lc index] trim_Nil by simp
  have 2: "parseSort sortParam \<noteq> None \<or> trim qv = [] \<longrightarrow>
      GET_results lc index (Some qv) credit dateFrom dateTo selected sortParam cache =
      GET_results lc index (Some []) credit dateFrom dateTo selected sortParam cache"
    unfolding 1 0 by (auto split: option.splits)
  have s1: "set (fst (GET_results lc index (Some qv) credit dateFrom dateTo selected sortParam cache)) = set F"
    unfolding 1 by (simp split: option.splits)
  have s0: "set (fst (GET_results lc index (Some []) credit dateFrom dateTo selected sortParam cache)) = set F"
    unfolding 0 by (simp split: option.splits)
  have "set F \<subseteq> set (present (browseItems index))"
    unfolding F_def by (rule set_applyFilters_subset)
  then have 4: "list_all (\<lambda>x. score x = 0 \<and> matchedTerms x = [])
     (fst (GET_results lc index (Some qv) credit dateFrom dateTo selected sortParam cache))"
    using scores_browseItems [of index] s1 unfolding list_all_iff by blast
  show ?thesis using 1 2 s1 s0 4 unfolding F_def by simp
qed

theorem GET_results_stopword_query_witness:
  "GET_results codeUnitCompare
     (searchIndex [mkItem (lit ''a1'') (lit ''Berlin Portrait'') (lit ''IMAGO / Muller'') (lit ''2024-01-01'') [],
                   mkItem (lit ''a2'') (lit ''Hamburg Hafen'') (lit ''IMAGO / Meier'') (lit ''2024-03-14'') []])
     (Some (lit ''der'')) None None None [] (Some (lit ''asc'')) [] =
   GET_results codeUnitCompare
     (searchIndex [mkItem (lit ''a1'') (lit ''Berlin Portrait'') (lit ''IMAGO / Muller'') (lit ''2024-01-01'') [],
                   mkItem (lit ''a2'') (lit ''Hamburg Hafen'') (lit ''IMAGO / Meier'') (lit ''2024-03-14'') []])
     (Some []) None None None [] (Some (lit ''asc'')) []"
proof -
  have t: "tokenize (lit ''der'') = []" by code_simp
  have p: "parseSort (Some (lit ''asc'')) \<noteq> None" unfolding parseSort_def by simp
  show ?thesis
    using GET_results_stopword_query [OF t, where sortParam = "Some (lit ''asc'')"] p by blast
qed

text \<open>
  C2 as stated fails: with no explicit sort the stopword-only query \<open>der\<close> returns the two
  documents in document order, the empty query returns them newest first.
\<close>

theorem GET_results_stopword_query_counterexample:
  "tokenize (lit ''der'') = [] \<and>
   fst (GET_results codeUnitCompare
          (searchIndex [mkItem (lit ''a1'') (lit ''Berlin Portrait'') (lit ''IMAGO / Muller'') (lit ''2024-01-01'') [],
                        mkItem (lit ''a2'') (lit ''Hamburg Hafen'') (lit ''IMAGO / Meier'') (lit ''2024-03-14'') []])
          (Some (lit ''der'')) None None None [] None []) =
     [\<lparr>item = mkItem (lit ''a1'') (lit ''Berlin Portrait'') (lit ''IMAGO / Muller'') (lit ''2024-01-01'') [],
        score = 0, matchedTerms = []\<rparr>,
      \<lparr>item = mkItem (lit ''a2'') (lit ''Hamburg Hafen'') (lit ''IMAGO / Meier'') (lit ''2024-03-14'') [],
        score = 0, matchedTerms = []\<rparr>] \<and>
   fst (GET_results codeUnitCompare
          (searchIndex [mkItem (lit ''a1'') (lit ''Berlin Portrait'') (lit ''IMAGO / Muller'') (lit ''2024-01-01'') [],
                        mkItem (lit ''a2'') (lit ''Hamburg Hafen'') (lit ''IMAGO / Meier'') (lit ''2024-03-14'') []])
          (Some []) None None None [] None []) =
     [\<lparr>item = mkItem (lit ''a2'') (lit ''Hamburg Hafen'') (lit ''IMAGO / Meier'') (lit ''2024-03-14'') [],
        score = 0, matchedTerms = []\<rparr>,
      \<lparr>item = mkItem (lit ''a1'') (lit ''Berlin Portrait'') (lit ''IMAGO / Muller'') (lit ''2024-01-01'') [],
        score = 0, matchedTerms = []\<rparr>]"
proof -
  have t: "tokenize (lit ''der'') = []" by code_simp
  have tr: "trim (lit ''der'') \<noteq> []" by code_simp
  have c: "codeUnitCompare (lit ''2024-01-01'') (lit ''2024-03-14'') = - 1" by code_simp
  have b: "browseItems (searchIndex ms) =
      map (\<lambda>it. Some \<lparr>item = it, score = 0, matchedTerms = []\<rparr>) ms" for ms
    unfolding browseItems_def getAllDocuments_def documents_searchIndex by simp
  have f: "applyFilters xs None None None [] = present xs" for xs
    unfolding applyFilters_def passesFilters_def by simp
  have m: "dateISO (mkItem i x c d r) = d" for i x c d r
    unfolding mkItem_def by simp
  have p: "parseSort None = None" unfolding parseSort_def by simp
  have 1: "fst (GET_results codeUnitCompare
          (searchIndex [mkItem (lit ''a1'') (lit ''Berlin Portrait'') (lit ''IMAGO / Muller'') (lit ''2024-01-01'') [],
                        mkItem (lit ''a2'') (lit ''Hamburg Hafen'') (lit ''IMAGO / Meier'') (lit ''2024-03-14'') []])
          (Some (lit ''der'')) None None None [] None []) =
     [\<lparr>item = mkItem (lit ''a1'') (lit ''Berlin Portrait'') (lit ''IMAGO / Muller'') (lit ''2024-01-01'') [],
        score = 0, matchedTerms = []\<rparr>,
      \<lparr>item = mkItem (lit ''a2'') (lit ''Hamburg Hafen'') (lit ''IMAGO / Meier'') (lit ''2024-03-14'') [],
        score = 0, matchedTerms = []\<rparr>]"
    unfolding GET_results_no_tokens [OF t] p b f using tr by simp
  have 2: "fst (GET_results codeUnitCompare
          (searchIndex [mkItem (lit ''a1'') (lit ''Berlin Portrait'') (lit ''IMAGO / Muller'') (lit ''2024-01-01'') [],
                        mkItem (lit ''a2'') (lit ''Hamburg Hafen'') (lit ''IMAGO / Meier'') (lit ''2024-03-14'') []])
          (Some []) None None None [] None []) =
     [\<lparr>item = mkItem (lit ''a2'') (lit ''Hamburg Hafen'') (lit ''IMAGO / Meier'') (lit ''2024-03-14'') [],
        score = 0, matchedTerms = []\<rparr>,
      \<lparr>item = mkItem (lit ''a1'') (lit ''Berlin Portrait'') (lit ''IMAGO / Muller'') (lit ''2024-01-01'') [],
        score = 0, matchedTerms = []\<rparr>]"
    unfolding GET_results_no_tokens [OF tokenize_Nil] p b f
    by (simp add: m trim_Nil sortByDate_def sortBy_def c [simplified])
  show ?thesis using t 1 2 by blast
qed

section \<open>Determinism of search\<close>

lemma cacheConsistent_empty: "cacheConsistent index []"
  unfolding cacheConsistent_def by simp

lemma cacheConsistent_update:
  assumes "cacheConsistent index c"
    and "\<forall>term v. map_get fc term = Some v \<longrightarrow> v = idfOf index field term"
  shows "cacheConsistent index (map_set c field fc)"
  using assms unfolding cacheConsistent_def by (auto simp: map_get_map_set split: if_splits)

lemma getIDF_consistent:
  assumes "cacheConsistent index c"
  shows "fst (getIDF term field (getFieldIndex index field) c) = idfOf index field term"
    and "cacheConsistent index (snd (getIDF term field (getFieldIndex index field) c))"
proof -
  define fc where "fc = (case map_get c field of Some fc \<Rightarrow> fc | None \<Rightarrow> [])"
  define c1 where "c1 = (case map_get c field of Some fc \<Rightarrow> c | None \<Rightarrow> map_set c field [])"
  have fcok: "\<forall>t v. map_get fc t = Some v \<longrightarrow> v = idfOf index field t"
    using assms unfolding fc_def cacheConsistent_def by (auto split: option.splits)
  have c1ok: "cacheConsistent index c1"
    unfolding c1_def using assms by (auto split: option.splits intro: cacheConsistent_update)
  show "fst (getIDF term field (getFieldIndex index field) c) = idfOf index field term"
  proof (cases "map_get fc term")
    case None
    then show ?thesis
      unfolding getIDF_def Let_def fc_def [symmetric] c1_def [symmetric] idfOf_def by simp
  next
    case (Some v)
    then show ?thesis
      using fcok unfolding getIDF_def Let_def fc_def [symmetric] c1_def [symmetric] by simp
  qed
  show "cacheConsistent index (snd (getIDF term field (getFieldIndex index field) c))"
  proof (cases "map_get fc term")
    case None
    have "\<forall>t v. map_get (map_set fc term (idfOf index field term)) t = Some v \<longrightarrow>
            v = idfOf index field t"
      using fcok by (auto simp: map_get_map_set split: if_splits)
    then have "cacheConsistent index (map_set c1 field (map_set fc term (idfOf index field term)))"
      using c1ok by (intro cacheConsistent_update)
    then show ?thesis
      using None
      unfolding getIDF_def Let_def fc_def [symmetric] c1_def [symmetric] idfOf_def by simp
  next
    case (Some v)
    then show ?thesis
      using c1ok unfolding getIDF_def Let_def fc_def [symmetric] c1_def [symmetric] by simp
  qed
qed

lemma sameScores_scoreTermInField:
  assumes "sameScores index st st'"
  shows "sameScores index (scoreTermInField term field index config isPrefix st)
           (scoreTermInField term field index config isPrefix st')"
proof -
  from assms have eq: "fst st = fst st'" and c: "cacheConsistent index (snd st)"
    and c': "cacheConsistent index (snd st')"
    unfolding sameScores_def by simp_all
  note g = getIDF_consistent [OF c, of "term" field]
  note g' = getIDF_consistent [OF c', of "term" field]
  show ?thesis
  proof (cases "map_get (termPostings (getFieldIndex index field)) term")
    case None
    then show ?thesis using assms unfolding scoreTermInField_def Let_def by simp
  next
    case (Some postings)
    show ?thesis
    proof (cases "length postings = 0")
      case True
      then show ?thesis using assms Some unfolding scoreTermInField_def Let_def by simp
    next
      case False
      then show ?thesis
        using Some eq g g' unfolding scoreTermInField_def Let_def sameScores_def
        by (simp add: case_prod_unfold)
    qed
  qed
qed

lemma sameScores_foldl:
  assumes "\<And>x st st'. sameScores index st st' \<Longrightarrow> sameScores index (f st x) (f st' x)"
    and "sameScores index st st'"
  shows "sameScores index (foldl f st xs) (foldl f st' xs)"
  using assms(2) by (induction xs arbitrary: st st') (simp_all add: assms(1))

lemma sameScores_scorePrefixTerms:
  assumes "sameScores index st st'"
  shows "sameScores index (scorePrefixTerms term field index config pts st)
           (scorePrefixTerms term field index config pts st')"
  unfolding scorePrefixTerms_def
  by (rule sameScores_foldl [OF _ assms]) (simp add: sameScores_scoreTermInField)

lemma sameScores_scoreQueryTerm:
  assumes "sameScores index st st'"
  shows "sameScores index (scoreQueryTerm index cfg st term) (scoreQueryTerm index cfg st' term)"
  unfolding scoreQueryTerm_def Let_def
  by (simp add: assms sameScores_scoreTermInField sameScores_scorePrefixTerms)

lemma search_consistent:
  assumes "cacheConsistent index c" and "cacheConsistent index c'"
  shows "fst (search lc query index config c) = fst (search lc query index config c')"
    and "cacheConsistent index (snd (search lc query index config c))"
proof -
  have s: "sameScores index ([], c) ([], c')"
    using assms unfolding sameScores_def by simp
  have "sameScores index (foldl (scoreQueryTerm index (mergeConfig config)) ([], c) (tokenize query))
          (foldl (scoreQueryTerm index (mergeConfig config)) ([], c') (tokenize query))"
    by (rule sameScores_foldl [OF _ s]) (rule sameScores_scoreQueryTerm)
  then have eq: "fst (foldl (scoreQueryTerm index (mergeConfig config)) ([], c) (tokenize query)) =
      fst (foldl (scoreQueryTerm index (mergeConfig config)) ([], c') (tokenize query))"
    and ok: "cacheConsistent index
      (snd (foldl (scoreQueryTerm index (mergeConfig config)) ([], c) (tokenize query)))"
    unfolding sameScores_def by simp_all
  show "fst (search lc query index config c) = fst (search lc query index config c')"
    unfolding search_def Let_def using eq by simp
  show "cacheConsistent index (snd (search lc query index config c))"
    unfolding search_def Let_def using ok assms(1) by simp
qed

lemma runQueries_consistent:
  "cacheConsistent index c \<Longrightarrow>
   cacheConsistent index (runQueries lc (onIndex index history) c)"
  unfolding runQueries_def onIndex_def
  by (induction history arbitrary: c) (auto simp: search_consistent(2))

text \<open>
  C9, as amended: \<open>search\<close> is deterministic on one index state. Whatever queries, with
  whatever configurations, ran on that index state before, starting from the empty cache
  of a fresh module, two calls with the same query, the same index state and the same
  configuration return the same result list: the cache then only ever holds the IDF
  values that a miss computes from the index.
\<close>

theorem search_deterministic:
  "fst (search lc query index config (runQueries lc (onIndex index history1) [])) =
   fst (search lc query index config (runQueries lc (onIndex index history2) []))"
  by (intro search_consistent(1) runQueries_consistent cacheConsistent_empty)

text \<open>
  C9 as stated fails: the cache belongs to the module and is keyed by field and
  term only, while \<open>search\<close> takes the index as an argument. After a search for \<open>eu\<close> on
  the index of one document, the same search on the index of two documents reads the
  IDF of the first index, \<open>ln (4 / 3)\<close>, from the cache; with no earlier search it
  computes \<open>ln 2\<close>, and the score of the result differs.
\<close>

theorem search_deterministic_counterexample:
  "fst (search codeUnitCompare (lit ''eu'')
          (searchIndex
             [mkItem (lit ''1'') (lit ''EU'') (lit ''IMAGO'') (lit ''2024-01-01'') [],
              mkItem (lit ''2'') (lit ''UK'') (lit ''IMAGO'') (lit ''2024-01-02'') []])
          noOverrides
          (runQueries codeUnitCompare
             [(lit ''eu'',
               searchIndex
                 [mkItem (lit ''1'') (lit ''EU'') (lit ''IMAGO'') (lit ''2024-01-01'') []],
               noOverrides)]
             [])) =
     [Some \<lparr>item = mkItem (lit ''1'') (lit ''EU'') (lit ''IMAGO'') (lit ''2024-01-01'') [],
             score = 3 * ln (4 / 3), matchedTerms = [lit ''eu''], docId = 0\<rparr>] \<and>
   fst (search codeUnitCompare (lit ''eu'')
          (searchIndex
             [mkItem (lit ''1'') (lit ''EU'') (lit ''IMAGO'') (lit ''2024-01-01'') [],
              mkItem (lit ''2'') (lit ''UK'') (lit ''IMAGO'') (lit ''2024-01-02'') []])
          noOverrides
          (runQueries codeUnitCompare [] [])) =
     [Some \<lparr>item = mkItem (lit ''1'') (lit ''EU'') (lit ''IMAGO'') (lit ''2024-01-01'') [],
             score = 3 * ln 2, matchedTerms = [lit ''eu''], docId = 0\<rparr>] \<and>
   fst (search codeUnitCompare (lit ''eu'')
          (searchIndex
             [mkItem (lit ''1'') (lit ''EU'') (lit ''IMAGO'') (lit ''2024-01-01'') [],
              mkItem (lit ''2'') (lit ''UK'') (lit ''IMAGO'') (lit ''2024-01-02'') []])
          noOverrides
          (runQueries codeUnitCompare
             [(lit ''eu'',
               searchIndex
                 [mkItem (lit ''1'') (lit ''EU'') (lit ''IMAGO'') (lit ''2024-01-01'') []],
               noOverrides)]
             [])) \<noteq>
   fst (search codeUnitCompare (lit ''eu'')
          (searchIndex
             [mkItem (lit ''1'') (lit ''EU'') (lit ''IMAGO'') (lit ''2024-01-01'') [],
              mkItem (lit ''2'') (lit ''UK'') (lit ''IMAGO'') (lit ''2024-01-02'') []])
          noOverrides
          (runQueries codeUnitCompare [] []))"
proof -
  define d where "d = mkItem (lit ''1'') (lit ''EU'') (lit ''IMAGO'') (lit ''2024-01-01'') []"
  define A where "A = searchIndex [d]"
  define B where
    "B = searchIndex [d, mkItem (lit ''2'') (lit ''UK'') (lit ''IMAGO'') (lit ''2024-01-02'') []]"
  have t: "tokenize (lit ''eu'') = [lit ''eu'']" by code_simp
  have len: "length (lit ''eu'') = 2" by simp
  have a:
    "map_get (termPostings (suchtextIndex A)) (lit ''eu'') =
       Some [\<lparr>Posting.docId = 0, termFrequency = 1\<rparr>]"
    "map_get (termPostings (fotografenIndex A)) (lit ''eu'') = None"
    "map_get (termPostings (bildnummerIndex A)) (lit ''eu'') = None"
    "map_get (docLengths (suchtextIndex A)) 0 = Some 1"
    "totalDocs (suchtextIndex A) = 1"
    "avgDocLength (suchtextIndex A) = 1"
    unfolding A_def d_def by code_simp+
  have b:
    "map_get (termPostings (suchtextIndex B)) (lit ''eu'') =
       Some [\<lparr>Posting.docId = 0, termFrequency = 1\<rparr>]"
    "map_get (termPostings (fotografenIndex B)) (lit ''eu'') = None"
    "map_get (termPostings (bildnummerIndex B)) (lit ''eu'') = None"
    "map_get (docLengths (suchtextIndex B)) 0 = Some 1"
    "totalDocs (suchtextIndex B) = 2"
    "avgDocLength (suchtextIndex B) = 1"
    unfolding B_def d_def by code_simp+
  have doc: "getDocument A 0 = Some d" "getDocument B 0 = Some d"
    unfolding A_def B_def getDocument_def documents_searchIndex by simp_all
  note ev = scoreQueryTerm_def scoreTermInField_def getFieldIndex_def getIDF_def computeIDF_def
    scorePosting_def computeTermScore_def mergeConfig_def noOverrides_def
    DEFAULT_SEARCH_CONFIG_def toResults_def sortBy_def map_get_Cons Let_def len
  have sA: "snd (search codeUnitCompare (lit ''eu'') A noOverrides []) =
      [(Suchtext, [(lit ''eu'', ln (4 / 3))])]"
    unfolding search_def Let_def t by (simp add: ev a doc del: lit_simps)
  have 1: "fst (search codeUnitCompare (lit ''eu'') B noOverrides
                  [(Suchtext, [(lit ''eu'', ln (4 / 3))])]) =
      [Some \<lparr>item = d, score = 3 * ln (4 / 3), matchedTerms = [lit ''eu''], docId = 0\<rparr>]"
    unfolding search_def Let_def t by (simp add: ev b doc del: lit_simps)
  have 2: "fst (search codeUnitCompare (lit ''eu'') B noOverrides []) =
      [Some \<lparr>item = d, score = 3 * ln 2, matchedTerms = [lit ''eu''], docId = 0\<rparr>]"
    unfolding search_def Let_def t by (simp add: ev b doc del: lit_simps)
  have r: "runQueries codeUnitCompare [(lit ''eu'', A, noOverrides)] [] =
      [(Suchtext, [(lit ''eu'', ln (4 / 3))])]"
    "runQueries codeUnitCompare [] [] = []"
    unfolding runQueries_def by (simp_all add: sA del: lit_simps)
  show ?thesis
    unfolding d_def [symmetric] A_def [symmetric] B_def [symmetric] r 1 2 by simp
qed

section \<open>Matched terms\<close>

lemma termsOf_map_set:
  "termsOf (map_set ds d e) d' = (if d' = d then set (snd e) else termsOf ds d')"
  unfolding termsOf_def by (simp add: map_get_map_set)

lemma set_map_keys_map_set: "set (map_keys (map_set m k v)) = insert k (set (map_keys m))"
  by (auto simp: map_keys_map_set)

lemma scorePosting_eq:
  "\<exists>s. scorePosting t fi idf w m cfg ds p =
         map_set ds (Posting.docId p)
           (s, case map_get ds (Posting.docId p) of
                 Some e \<Rightarrow> set_add (snd e) t
               | None \<Rightarrow> [t])"
  unfolding scorePosting_def Let_def by (cases "map_get ds (Posting.docId p)") auto

lemma scorePosting_props:
  assumes "distinct (map_keys ds)"
    and "\<forall>d e. map_get ds d = Some e \<longrightarrow> distinct (snd e)"
  shows "distinct (map_keys (scorePosting t fi idf w m cfg ds p))"
    and "set (map_keys (scorePosting t fi idf w m cfg ds p)) =
           insert (Posting.docId p) (set (map_keys ds))"
    and "termsOf (scorePosting t fi idf w m cfg ds p) d =
           termsOf ds d \<union> (if d = Posting.docId p then {t} else {})"
    and "\<forall>d e. map_get (scorePosting t fi idf w m cfg ds p) d = Some e \<longrightarrow> distinct (snd e)"
proof -
  define ts where "ts = (case map_get ds (Posting.docId p) of
                 Some e \<Rightarrow> set_add (snd e) t
               | None \<Rightarrow> [t])"
  obtain s where eq: "scorePosting t fi idf w m cfg ds p = map_set ds (Posting.docId p) (s, ts)"
    using scorePosting_eq [of t fi idf w m cfg ds p] unfolding ts_def by blast
  have tset: "set ts = insert t (termsOf ds (Posting.docId p))"
    unfolding ts_def termsOf_def by (simp split: option.splits)
  have tdist: "distinct ts"
    using assms(2) unfolding ts_def set_add_def by (auto split: option.splits)
  show "distinct (map_keys (scorePosting t fi idf w m cfg ds p))"
    unfolding eq using assms(1) by (rule distinct_map_set)
  show "set (map_keys (scorePosting t fi idf w m cfg ds p)) =
           insert (Posting.docId p) (set (map_keys ds))"
    unfolding eq by (rule set_map_keys_map_set)
  show "termsOf (scorePosting t fi idf w m cfg ds p) d =
           termsOf ds d \<union> (if d = Posting.docId p then {t} else {})"
    unfolding eq termsOf_map_set using tset by auto
  show "\<forall>d e. map_get (scorePosting t fi idf w m cfg ds p) d = Some e \<longrightarrow> distinct (snd e)"
  proof (intro allI impI)
    fix d e assume "map_get (scorePosting t fi idf w m cfg ds p) d = Some e"
    then have "(d = Posting.docId p \<and> e = (s, ts)) \<or> map_get ds d = Some e"
      unfolding eq map_get_map_set by (auto split: if_splits)
    then show "distinct (snd e)" using tdist assms(2) by (cases e) auto
  qed
qed

lemma foldl_scorePosting_props:
  assumes "distinct (map_keys ds)"
    and "\<forall>d e. map_get ds d = Some e \<longrightarrow> distinct (snd e)"
  shows "distinct (map_keys (foldl (scorePosting t fi idf w m cfg) ds ps)) \<and>
         set (map_keys (foldl (scorePosting t fi idf w m cfg) ds ps)) =
           Posting.docId ` set ps \<union> set (map_keys ds) \<and>
         (\<forall>d. termsOf (foldl (scorePosting t fi idf w m cfg) ds ps) d =
           termsOf ds d \<union> (if d \<in> Posting.docId ` set ps then {t} else {})) \<and>
         (\<forall>d e. map_get (foldl (scorePosting t fi idf w m cfg) ds ps) d = Some e \<longrightarrow>
            distinct (snd e))"
  using assms
proof (induction ps arbitrary: ds)
  case Nil
  then show ?case by simp
next
  case (Cons p ps)
  note P = scorePosting_props [OF Cons.prems, of t fi idf w m cfg p]
  note IH = Cons.IH [OF P(1) P(4)]
  show ?case
  proof (intro conjI allI)
    show "distinct (map_keys (foldl (scorePosting t fi idf w m cfg) ds (p # ps)))"
      using IH by simp
    show "set (map_keys (foldl (scorePosting t fi idf w m cfg) ds (p # ps))) =
           Posting.docId ` set (p # ps) \<union> set (map_keys ds)"
      using IH P(2) by auto
    show "termsOf (foldl (scorePosting t fi idf w m cfg) ds (p # ps)) d =
           termsOf ds d \<union> (if d \<in> Posting.docId ` set (p # ps) then {t} else {})" for d
      using IH P(3) [of d] by auto
    show "map_get (foldl (scorePosting t fi idf w m cfg) ds (p # ps)) d = Some e \<longrightarrow>
            distinct (snd e)" for d e
      using IH by (simp del: split_paired_All)
  qed
qed


lemma records_empty: "records index [] {}"
  unfolding records_def termsOf_def map_keys_def by simp

lemma records_same:
  assumes "records index ds P" and "postingDocs index f t = {}"
  shows "records index ds (insert (t, f) P)"
proof -
  have "{d. \<exists>t' f'. (t', f') \<in> insert (t, f) P \<and> d \<in> postingDocs index f' t'} =
        {d. \<exists>t' f'. (t', f') \<in> P \<and> d \<in> postingDocs index f' t'}"
    using assms(2) by auto
  moreover have "{t'. \<exists>f'. (t', f') \<in> insert (t, f) P \<and> d \<in> postingDocs index f' t'} =
        {t'. \<exists>f'. (t', f') \<in> P \<and> d \<in> postingDocs index f' t'}" for d
    using assms(2) by auto
  ultimately show ?thesis using assms(1) unfolding records_def by simp
qed

lemma records_step:
  assumes "records index ds P"
    and "distinct (map_keys ds')"
    and "set (map_keys ds') = postingDocs index f t \<union> set (map_keys ds)"
    and "\<forall>d. termsOf ds' d = termsOf ds d \<union> (if d \<in> postingDocs index f t then {t} else {})"
    and "\<forall>d e. map_get ds' d = Some e \<longrightarrow> distinct (snd e)"
  shows "records index ds' (insert (t, f) P)"
proof -
  from assms(1) have k: "set (map_keys ds) = {d. \<exists>t f. (t, f) \<in> P \<and> d \<in> postingDocs index f t}"
    and tm: "\<And>d. termsOf ds d = {t. \<exists>f. (t, f) \<in> P \<and> d \<in> postingDocs index f t}"
    unfolding records_def by simp_all
  have 1: "set (map_keys ds') =
      {d. \<exists>t' f'. (t', f') \<in> insert (t, f) P \<and> d \<in> postingDocs index f' t'}"
    unfolding assms(3) k by auto
  have 2: "termsOf ds' d =
      {t'. \<exists>f'. (t', f') \<in> insert (t, f) P \<and> d \<in> postingDocs index f' t'}" for d
    using assms(4) tm [of d] by auto
  show ?thesis unfolding records_def using assms(2) assms(5) 1 2 by simp
qed

lemma records_scoreTermInField:
  assumes "records index (fst st) P"
  shows "records index (fst (scoreTermInField t f index cfg isPrefix st)) (insert (t, f) P)"
proof (cases "map_get (termPostings (getFieldIndex index f)) t")
  case None
  then have "postingDocs index f t = {}" unfolding postingDocs_def by simp
  from records_same [OF assms this] show ?thesis
    using None unfolding scoreTermInField_def Let_def by simp
next
  case (Some ps)
  show ?thesis
  proof (cases "length ps = 0")
    case True
    then have "postingDocs index f t = {}" using Some unfolding postingDocs_def by simp
    from records_same [OF assms this] show ?thesis
      using Some True unfolding scoreTermInField_def Let_def by simp
  next
    case False
    have pd: "postingDocs index f t = Posting.docId ` set ps"
      using Some unfolding postingDocs_def by simp
    obtain idf w m bm where eq: "fst (scoreTermInField t f index cfg isPrefix st) =
        foldl (scorePosting t (getFieldIndex index f) idf w m bm) (fst st) ps"
      using Some False unfolding scoreTermInField_def Let_def
      by (simp add: case_prod_unfold)
    from assms have d: "distinct (map_keys (fst st))"
      and e: "\<forall>d e. map_get (fst st) d = Some e \<longrightarrow> distinct (snd e)"
      unfolding records_def by blast+
    note F = foldl_scorePosting_props [OF d e, of t "getFieldIndex index f" idf w m bm ps]
    show ?thesis
      unfolding eq
      by (rule records_step [OF assms]) (use F pd in simp_all)
  qed
qed

lemma records_scorePrefixTerms:
  assumes "records index (fst st) P"
  shows "records index (fst (scorePrefixTerms term f index cfg pts st))
           (P \<union> {(t, f') | t f'. f' = f \<and> t \<in> set pts \<and> t \<noteq> term})"
  using assms
proof (induction pts arbitrary: st P)
  case Nil
  then show ?case unfolding scorePrefixTerms_def by simp
next
  case (Cons x pts)
  show ?case
  proof (cases "x = term")
    case True
    have "{(t, f') | t f'. f' = f \<and> t \<in> set (x # pts) \<and> t \<noteq> term} =
          {(t, f') | t f'. f' = f \<and> t \<in> set pts \<and> t \<noteq> term}"
      using True by auto
    then show ?thesis
      using Cons.IH [OF Cons.prems] True unfolding scorePrefixTerms_def by simp
  next
    case False
    have eq: "insert (x, f) P \<union> {(t, f') | t f'. f' = f \<and> t \<in> set pts \<and> t \<noteq> term} =
          P \<union> {(t, f') | t f'. f' = f \<and> t \<in> set (x # pts) \<and> t \<noteq> term}"
      using False by auto
    have "records index (fst (scoreTermInField x f index cfg True st)) (insert (x, f) P)"
      using Cons.prems by (rule records_scoreTermInField)
    from Cons.IH [OF this] show ?thesis
      using False unfolding scorePrefixTerms_def eq by simp
  qed
qed


lemma Field_cases: "f = Suchtext \<or> f = Fotografen \<or> f = Bildnummer"
  by (cases f) simp_all

lemma records_scoreQueryTerm:
  assumes "records index (fst st) P"
  shows "records index (fst (scoreQueryTerm index cfg st term)) (P \<union> termPairs index cfg term)"
proof -
  define st3 where "st3 =
     scoreTermInField term Bildnummer index cfg False
       (scoreTermInField term Fotografen index cfg False
         (scoreTermInField term Suchtext index cfg False st))"
  define P3 where "P3 =
     insert (term, Bildnummer) (insert (term, Fotografen) (insert (term, Suchtext) P))"
  have r3: "records index (fst st3) P3"
    unfolding st3_def P3_def by (intro records_scoreTermInField assms)
  have e3: "P3 = P \<union> {(t, f). t = term}"
  proof (rule set_eqI)
    fix x :: "jsString \<times> Field"
    obtain t f where x: "x = (t, f)" by (cases x)
    show "x \<in> P3 \<longleftrightarrow> x \<in> P \<union> {(t, f). t = term}"
      unfolding x P3_def by (cases f) auto
  qed
  show ?thesis
  proof (cases "minPrefixLength cfg \<le> length term")
    case False
    then have "termPairs index cfg term = {(t, f). t = term}"
      unfolding termPairs_def by auto
    moreover have "scoreQueryTerm index cfg st term = st3"
      using False unfolding scoreQueryTerm_def Let_def st3_def by simp
    ultimately show ?thesis using r3 e3 by simp
  next
    case True
    define S where "S = getPrefixTerms index term Suchtext (maxPrefixExpansion cfg)"
    define F where "F = getPrefixTerms index term Fotografen (maxPrefixExpansion cfg)"
    define B where "B = getPrefixTerms index term Bildnummer (maxPrefixExpansion cfg)"
    have q: "scoreQueryTerm index cfg st term =
        scorePrefixTerms term Bildnummer index cfg B
          (scorePrefixTerms term Fotografen index cfg F
            (scorePrefixTerms term Suchtext index cfg S st3))"
      using True unfolding scoreQueryTerm_def Let_def st3_def S_def F_def B_def by simp
    have r: "records index (fst (scoreQueryTerm index cfg st term))
        (((P3 \<union> {(t, f') | t f'. f' = Suchtext \<and> t \<in> set S \<and> t \<noteq> term}) \<union>
           {(t, f') | t f'. f' = Fotografen \<and> t \<in> set F \<and> t \<noteq> term}) \<union>
          {(t, f') | t f'. f' = Bildnummer \<and> t \<in> set B \<and> t \<noteq> term})"
      unfolding q by (intro records_scorePrefixTerms r3)
    have "{(t, f). t \<in> set (getPrefixTerms index term f (maxPrefixExpansion cfg)) \<and> t \<noteq> term} =
        {(t, f') | t f'. f' = Suchtext \<and> t \<in> set S \<and> t \<noteq> term} \<union>
        {(t, f') | t f'. f' = Fotografen \<and> t \<in> set F \<and> t \<noteq> term} \<union>
        {(t, f') | t f'. f' = Bildnummer \<and> t \<in> set B \<and> t \<noteq> term}"
    proof (rule set_eqI)
      fix x :: "jsString \<times> Field"
      obtain t f where x: "x = (t, f)" by (cases x)
      show "x \<in> {(t, f). t \<in> set (getPrefixTerms index term f (maxPrefixExpansion cfg)) \<and> t \<noteq> term} \<longleftrightarrow>
        x \<in> {(t, f') | t f'. f' = Suchtext \<and> t \<in> set S \<and> t \<noteq> term} \<union>
        {(t, f') | t f'. f' = Fotografen \<and> t \<in> set F \<and> t \<noteq> term} \<union>
        {(t, f') | t f'. f' = Bildnummer \<and> t \<in> set B \<and> t \<noteq> term}"
        unfolding x S_def F_def B_def by (cases f) simp_all
    qed
    then have "P \<union> termPairs index cfg term =
        ((P3 \<union> {(t, f') | t f'. f' = Suchtext \<and> t \<in> set S \<and> t \<noteq> term}) \<union>
           {(t, f') | t f'. f' = Fotografen \<and> t \<in> set F \<and> t \<noteq> term}) \<union>
          {(t, f') | t f'. f' = Bildnummer \<and> t \<in> set B \<and> t \<noteq> term}"
      unfolding termPairs_def e3 using True by auto
    then show ?thesis using r by simp
  qed
qed

lemma records_foldl_scoreQueryTerm:
  assumes "records index (fst st) P"
  shows "records index (fst (foldl (scoreQueryTerm index cfg) st terms))
           (P \<union> scoredPairs index cfg terms)"
  using assms
proof (induction terms arbitrary: st P)
  case Nil
  then show ?case unfolding scoredPairs_def by simp
next
  case (Cons x terms)
  have "records index (fst (scoreQueryTerm index cfg st x)) (P \<union> termPairs index cfg x)"
    using Cons.prems by (rule records_scoreQueryTerm)
  from Cons.IH [OF this] show ?case
    unfolding scoredPairs_def by (simp add: Un_assoc)
qed

lemma toResults_D:
  assumes "r \<in> set (toResults index ds)"
  shows "\<exists>e. (docId r, e) \<in> set ds \<and> matchedTerms r = snd e"
  using assms unfolding toResults_def by (auto split: option.splits)

lemma toResults_I:
  assumes "d \<in> set (map_keys ds)" and "getDocument index d = Some it"
  shows "\<exists>r \<in> set (toResults index ds). docId r = d \<and> item r = it"
proof -
  from assms(1) obtain e where "(d, e) \<in> set ds" unfolding map_keys_def by auto
  then have "\<lparr>item = it, score = fst e, matchedTerms = snd e, docId = d\<rparr> \<in> set (toResults index ds)"
    using assms(2) unfolding toResults_def by force
  then show ?thesis by force
qed

lemma records_matchedTerms:
  assumes "records index ds P" and "r \<in> set (toResults index ds)"
  shows "set (matchedTerms r) = {t. \<exists>f. (t, f) \<in> P \<and> docId r \<in> postingDocs index f t}"
    and "distinct (matchedTerms r)"
proof -
  from toResults_D [OF assms(2)] obtain e where e: "(docId r, e) \<in> set ds" "matchedTerms r = snd e"
    by blast
  from assms(1) have d: "distinct (map_keys ds)" unfolding records_def by blast
  have g: "map_get ds (docId r) = Some e" using map_get_Some_iff [OF d] e(1) by blast
  then have "termsOf ds (docId r) = set (matchedTerms r)" unfolding termsOf_def e(2) by simp
  then show "set (matchedTerms r) = {t. \<exists>f. (t, f) \<in> P \<and> docId r \<in> postingDocs index f t}"
    using assms(1) unfolding records_def by simp
  show "distinct (matchedTerms r)" using assms(1) g unfolding records_def e(2) by blast
qed

lemma postingDocs_vocabulary:
  "d \<in> postingDocs index f t \<Longrightarrow> t \<in> set (map_keys (termPostings (getFieldIndex index f)))"
  unfolding postingDocs_def using map_get_None_iff [of "termPostings (getFieldIndex index f)" t]
  by (auto split: option.splits)

lemma search_records:
  assumes "tokenize query \<noteq> []"
  shows "\<exists>ds. records index ds (scoredPairs index (mergeConfig config) (tokenize query)) \<and>
           set (fst (search lc query index config cache)) = Some ` set (toResults index ds)"
proof -
  define ds where
    "ds = fst (foldl (scoreQueryTerm index (mergeConfig config)) ([], cache) (tokenize query))"
  have "records index (fst ([] :: DocScores, cache)) {}" by (simp add: records_empty)
  from records_foldl_scoreQueryTerm [OF this]
  have "records index ds (scoredPairs index (mergeConfig config) (tokenize query))"
    unfolding ds_def by simp
  moreover have "set (fst (search lc query index config cache)) = Some ` set (toResults index ds)"
    using assms unfolding search_def Let_def ds_def by simp
  ultimately show ?thesis by blast
qed

text \<open>
  C10: for a query with a non-empty token list, the matched terms of a returned result
  are exactly the terms that \<open>search\<close> scored in a field in which the term has a posting for
  the result's document: a query token in any field, a term of a prefix expansion in the
  field of that expansion. Each is listed once and is a key of the term map of some
  field, so a match found only through a prefix expansion records the expanded term and
  not the shorter query token.
\<close>

theorem search_matchedTerms:
  assumes "tokenize query \<noteq> []"
    and "Some r \<in> set (fst (search lc query index config cache))"
  shows "set (matchedTerms r) =
           {t. \<exists>f. (t, f) \<in> scoredPairs index (mergeConfig config) (tokenize query) \<and>
                    docId r \<in> postingDocs index f t} \<and>
         distinct (matchedTerms r) \<and>
         (\<forall>t \<in> set (matchedTerms r).
            \<exists>f. t \<in> set (map_keys (termPostings (getFieldIndex index f))))"
proof -
  from search_records [OF assms(1), of index config lc cache] obtain ds
    where ds: "records index ds (scoredPairs index (mergeConfig config) (tokenize query))"
      and s: "set (fst (search lc query index config cache)) = Some ` set (toResults index ds)"
    by blast
  from assms(2) s have r: "r \<in> set (toResults index ds)" by auto
  note M = records_matchedTerms [OF ds r]
  have "\<forall>t \<in> set (matchedTerms r).
            \<exists>f. t \<in> set (map_keys (termPostings (getFieldIndex index f)))"
    unfolding M(1) using postingDocs_vocabulary by blast
  then show ?thesis using M by blast
qed


lemma search_result_exists:
  assumes "tokenize query \<noteq> []"
    and "(t, f) \<in> scoredPairs index (mergeConfig config) (tokenize query)"
    and "d \<in> postingDocs index f t"
    and "getDocument index d = Some it"
  shows "\<exists>r. Some r \<in> set (fst (search lc query index config cache)) \<and> docId r = d \<and> item r = it"
proof -
  from search_records [OF assms(1), of index config lc cache] obtain ds
    where ds: "records index ds (scoredPairs index (mergeConfig config) (tokenize query))"
      and s: "set (fst (search lc query index config cache)) = Some ` set (toResults index ds)"
    by blast
  have "d \<in> set (map_keys ds)" using ds assms(2) assms(3) unfolding records_def by blast
  from toResults_I [OF this assms(4)] show ?thesis using s by blast
qed

theorem search_matchedTerms_witness:
  "\<exists>r. Some r \<in> set (fst (search codeUnitCompare (lit ''ber'')
                           (searchIndex [mkItem (lit ''a1'') (lit ''Berlin Portrait'') (lit ''IMAGO / Muller'')
                                           (lit ''2024-03-14'') []])
                           noOverrides [])) \<and>
       docId r = 0 \<and> lit ''berlin'' \<in> set (matchedTerms r) \<and> lit ''ber'' \<notin> set (matchedTerms r)"
proof -
  define idx where
    "idx = searchIndex [mkItem (lit ''a1'') (lit ''Berlin Portrait'') (lit ''IMAGO / Muller'') (lit ''2024-03-14'') []]"
  have tok: "tokenize (lit ''ber'') = [lit ''ber'']" by code_simp
  then have ne: "tokenize (lit ''ber'') \<noteq> []" by simp
  have cfg: "minPrefixLength (mergeConfig noOverrides) = 3"
    "maxPrefixExpansion (mergeConfig noOverrides) = 50"
    unfolding mergeConfig_def noOverrides_def DEFAULT_SEARCH_CONFIG_def by simp_all
  have px: "getPrefixTerms idx (lit ''ber'') Suchtext 50 = [lit ''berlin'']"
    unfolding idx_def by code_simp
  have pb: "map_get (termPostings (getFieldIndex idx Suchtext)) (lit ''berlin'') =
      Some [\<lparr>Posting.docId = 0, termFrequency = 1\<rparr>]"
    unfolding idx_def by code_simp
  have n1: "map_get (termPostings (getFieldIndex idx Suchtext)) (lit ''ber'') = None"
    unfolding idx_def by code_simp
  have n2: "map_get (termPostings (getFieldIndex idx Fotografen)) (lit ''ber'') = None"
    unfolding idx_def by code_simp
  have n3: "map_get (termPostings (getFieldIndex idx Bildnummer)) (lit ''ber'') = None"
    unfolding idx_def by code_simp
  have doc: "getDocument idx 0 =
      Some (mkItem (lit ''a1'') (lit ''Berlin Portrait'') (lit ''IMAGO / Muller'') (lit ''2024-03-14'') [])"
    unfolding idx_def getDocument_def documents_searchIndex by simp
  have sp: "(lit ''berlin'', Suchtext) \<in> scoredPairs idx (mergeConfig noOverrides) (tokenize (lit ''ber''))"
    unfolding tok scoredPairs_def termPairs_def cfg by (simp add: px [simplified])
  have pd: "0 \<in> postingDocs idx Suchtext (lit ''berlin'')"
    unfolding postingDocs_def pb by simp
  have nb: "0 \<notin> postingDocs idx f (lit ''ber'')" for f
    unfolding postingDocs_def using n1 n2 n3 by (cases f) simp_all
  from search_result_exists [OF ne sp pd doc, of codeUnitCompare "[]"] obtain r
    where r: "Some r \<in> set (fst (search codeUnitCompare (lit ''ber'') idx noOverrides []))" "docId r = 0"
    by blast
  have m: "set (matchedTerms r) =
      {t. \<exists>f. (t, f) \<in> scoredPairs idx (mergeConfig noOverrides) (tokenize (lit ''ber'')) \<and>
               docId r \<in> postingDocs idx f t}"
    using search_matchedTerms [OF ne r(1)] by blast
  have "lit ''berlin'' \<in> set (matchedTerms r)" unfolding m r(2) using sp pd by blast
  moreover have "lit ''ber'' \<notin> set (matchedTerms r)" unfolding m r(2) using nb by blast
  ultimately show ?thesis using r unfolding idx_def by blast
qed


end
